theory Spec2Isabelle
  imports Main "HOL-Library.Sublist"
begin

section \<open>Strings as the path utilities use them\<close>

text \<open>
  JavaScript strings are modelled as \<open>string\<close>: a character is a code unit from U+0000
  to U+00FF (Latin-1), so text with code units above U+00FF is outside the model.
  \<open>String.prototype.toLowerCase\<close> on this range maps \<open>A..Z\<close> (U+0041..U+005A) and the
  accented capitals U+00C0..U+00DE, the multiplication sign U+00D7 apart, to the code unit
  32 above, and leaves every other character alone. An \<open>Error\<close> thrown by the source is a
  value \<open>Error msg\<close>, and a function that may throw returns \<open>error + 'a\<close>.
\<close>

datatype error = Error string

definition lower_char :: "char \<Rightarrow> char" where
  "lower_char c =
     (let n = (of_char c :: nat)
      in if (65 \<le> n \<and> n \<le> 90) \<or> (192 \<le> n \<and> n \<le> 222 \<and> n \<noteq> 215) then char_of (n + 32)
         else c)"

definition toLowerCase :: "string \<Rightarrow> string" where
  "toLowerCase s = map lower_char s"

definition upper_char :: "char \<Rightarrow> char" where
  "upper_char c =
     (let n = (of_char c :: nat) in if 97 \<le> n \<and> n \<le> 122 then char_of (n - 32) else c)"

definition is_alpha :: "char \<Rightarrow> bool" where
  "is_alpha c =
     (let n = (of_char c :: nat) in (65 \<le> n \<and> n \<le> 90) \<or> (97 \<le> n \<and> n \<le> 122))"

definition slash :: char where
  "slash = CHR ''/''"

definition backslash :: char where
  "backslash = CHR 0x5C"

definition is_sep :: "char \<Rightarrow> bool" where
  "is_sep c = (c = slash \<or> c = backslash)"

text \<open>\<open>String.prototype.includes\<close>: the needle occurs as a contiguous substring.\<close>

fun str_includes :: "string \<Rightarrow> string \<Rightarrow> bool" where
  "str_includes [] kw = (kw = [])"
| "str_includes (c # cs) kw = (prefix kw (c # cs) \<or> str_includes cs kw)"

text \<open>Decimal rendering of a number inside a template string.\<close>

definition digit_char :: "nat \<Rightarrow> char" where
  "digit_char d = char_of (48 + d)"

function string_of_nat :: "nat \<Rightarrow> string" where
  "string_of_nat n =
     (if n < 10 then [digit_char n] else string_of_nat (n div 10) @ [digit_char (n mod 10)])"
  by pat_completeness auto
termination
  by (relation "measure id") auto

declare string_of_nat.simps [simp del]

section \<open>Path utilities (\<open>src/lib/utils/path.ts\<close>)\<close>

definition normalizeWindowsPath :: "string \<Rightarrow> string" where
  "normalizeWindowsPath inputPath = map (\<lambda>c. if c = backslash then slash else c) inputPath"

text \<open>The key under which a path is compared: normalized, then lowercased.\<close>

definition path_key :: "string \<Rightarrow> string" where
  "path_key p = toLowerCase (normalizeWindowsPath p)"

text \<open>\<open>part.replace(/[/\\]+$/, '')\<close>: drop the trailing run of separators.\<close>

definition strip_trailing_seps :: "string \<Rightarrow> string" where
  "strip_trailing_seps s = rev (dropWhile is_sep (rev s))"

text \<open>\<open>s.replace(/[/\\]+/g, '/')\<close>: every maximal run of separators becomes one slash.\<close>

fun collapse_from :: "bool \<Rightarrow> string \<Rightarrow> string" where
  "collapse_from in_run [] = []"
| "collapse_from in_run (c # cs) =
     (if is_sep c then (if in_run then collapse_from True cs else slash # collapse_from True cs)
      else c # collapse_from False cs)"

definition collapse_seps :: "string \<Rightarrow> string" where
  "collapse_seps s = collapse_from False s"

fun join_with :: "string \<Rightarrow> string list \<Rightarrow> string" where
  "join_with sep [] = []"
| "join_with sep [p] = p"
| "join_with sep (p # q # ps) = p @ sep @ join_with sep (q # ps)"

definition joinPaths :: "string list \<Rightarrow> string" where
  "joinPaths parts =
     collapse_seps (join_with ''/'' (map strip_trailing_seps (butlast parts) @
        (if parts = [] then [] else [last parts])))"

text \<open>\<open>normalized.match(/^([A-Za-z]):/)\<close>, the letter uppercased; \<open>None\<close> is \<open>null\<close>.\<close>

definition getDriveLetter :: "string \<Rightarrow> char option" where
  "getDriveLetter inputPath =
     (case normalizeWindowsPath inputPath of
        c # d # _ \<Rightarrow> if is_alpha c \<and> d = CHR '':'' then Some (upper_char c) else None
      | _ \<Rightarrow> None)"

definition isSameDrive :: "string \<Rightarrow> string \<Rightarrow> bool" where
  "isSameDrive path1 path2 =
     (case (getDriveLetter path1, getDriveLetter path2) of
        (Some drive1, Some drive2) \<Rightarrow> drive1 = drive2
      | _ \<Rightarrow> False)"

text \<open>\<open>s.split('/')\<close>: the pieces between slashes, empty pieces included.\<close>

fun split_slash :: "string \<Rightarrow> string list" where
  "split_slash [] = [[]]"
| "split_slash (c # cs) =
     (if c = slash then [] # split_slash cs
      else (case split_slash cs of [] \<Rightarrow> [[c]] | p # ps \<Rightarrow> (c # p) # ps))"

definition getRepoNameFromPath :: "string \<Rightarrow> string" where
  "getRepoNameFromPath repoPath =
     (let parts = filter (\<lambda>p. p \<noteq> []) (split_slash (normalizeWindowsPath repoPath))
      in if parts = [] then ''unknown'' else last parts)"

subsection \<open>\<open>generateConflictFreePath\<close>\<close>

text \<open>
  The function compares paths by \<open>normalizeWindowsPath(p).toLowerCase()\<close>. The lower-casing
  belongs to the platform, so the function is first written over any lower-casing \<open>lc\<close>;
  the repository's function is its instance at \<open>toLowerCase\<close>.

  The \<open>while (true)\<close> loop is entered with \<open>suffix = 2\<close>. One round tests the candidate
  \<open>basePath-suffix\<close>, returns it when it is free, increments the suffix and throws as soon
  as the incremented suffix exceeds 100. The suffix never passes 101, which is the
  termination measure.
\<close>

definition key_with :: "(string \<Rightarrow> string) \<Rightarrow> string \<Rightarrow> string" where
  "key_with lc p = lc (normalizeWindowsPath p)"

definition candidate :: "string \<Rightarrow> nat \<Rightarrow> string" where
  "candidate basePath sfx = basePath @ ''-'' @ string_of_nat sfx"

function suffix_loop ::
  "(string \<Rightarrow> string) \<Rightarrow> string \<Rightarrow> string list \<Rightarrow> nat \<Rightarrow> error + string" where
  "suffix_loop lc basePath normalizedExisting sfx =
     (if key_with lc (candidate basePath sfx) \<notin> set normalizedExisting
      then Inr (candidate basePath sfx)
      else if sfx + 1 > 100 then Inl (Error ''Too many path conflicts'')
      else suffix_loop lc basePath normalizedExisting (sfx + 1))"
  by pat_completeness auto
termination
  by (relation "measure (\<lambda>(lc, b, ex, sfx). 101 - sfx)") auto

declare suffix_loop.simps [simp del]

definition generateConflictFreePath_with ::
  "(string \<Rightarrow> string) \<Rightarrow> string \<Rightarrow> string list \<Rightarrow> error + string" where
  "generateConflictFreePath_with lc basePath existingPaths =
     (let normalizedBase = key_with lc basePath;
          normalizedExisting = map (key_with lc) existingPaths
      in if normalizedBase \<notin> set normalizedExisting then Inr basePath
         else suffix_loop lc basePath normalizedExisting 2)"

definition generateConflictFreePath :: "string \<Rightarrow> string list \<Rightarrow> error + string" where
  "generateConflictFreePath basePath existingPaths =
     generateConflictFreePath_with toLowerCase basePath existingPaths"

text \<open>
  \<open>n\<close> sequential conflicts on the base \<open>b\<close>: the base itself and \<open>b-2\<close>, \<open>b-3\<close>, ...,
  \<open>b-n\<close>.
\<close>

definition sequential_conflicts :: "string \<Rightarrow> nat \<Rightarrow> string list" where
  "sequential_conflicts b n = b # map (\<lambda>i. b @ ''-'' @ string_of_nat i) [2..<n + 1]"

subsection \<open>\<open>isInsideAllowedRoot\<close>\<close>

text \<open>
  \<open>path.resolve\<close> belongs to the platform, not to the repository. It is modelled as the
  POSIX \<open>path.resolve\<close> of one argument against the working directory \<open>cwd\<close>: a relative
  path is appended to \<open>cwd\<close>, empty and \<open>.\<close> segments are dropped, a \<open>..\<close> segment removes
  the segment before it (and is dropped at the root), and the result is the remaining
  segments joined by \<open>/\<close> behind a leading \<open>/\<close>.
\<close>

fun resolve_segments :: "string list \<Rightarrow> string list \<Rightarrow> string list" where
  "resolve_segments acc [] = acc"
| "resolve_segments acc (s # ss) =
     (if s = [] \<or> s = ''.'' then resolve_segments acc ss
      else if s = ''..'' then resolve_segments (butlast acc) ss
      else resolve_segments (acc @ [s]) ss)"

definition resolved_segments :: "string \<Rightarrow> string \<Rightarrow> string list" where
  "resolved_segments cwd p =
     resolve_segments [] (split_slash (if prefix ''/'' p then p else cwd @ ''/'' @ p))"

definition path_resolve :: "string \<Rightarrow> string \<Rightarrow> string" where
  "path_resolve cwd p = ''/'' @ join_with ''/'' (resolved_segments cwd p)"

definition isInsideAllowedRoot :: "string \<Rightarrow> string \<Rightarrow> string \<Rightarrow> bool" where
  "isInsideAllowedRoot cwd targetPath rootPath =
     (let normalizedTarget = toLowerCase (normalizeWindowsPath (path_resolve cwd targetPath));
          normalizedRoot = toLowerCase (normalizeWindowsPath (path_resolve cwd rootPath))
      in prefix normalizedRoot normalizedTarget)"

text \<open>
  What "the target lies under the root" means for directories: the resolved root's
  segments are an initial run of the resolved target's segments (compared without case).
\<close>

definition lies_under :: "string \<Rightarrow> string \<Rightarrow> string \<Rightarrow> bool" where
  "lies_under cwd targetPath rootPath =
     prefix (map toLowerCase (resolved_segments cwd rootPath))
            (map toLowerCase (resolved_segments cwd targetPath))"

section \<open>Theme classifier (\<open>src/lib/services/scanner.ts\<close>)\<close>

text \<open>
  A field that may be \<open>null\<close> or \<open>undefined\<close> is an \<open>option\<close>. JavaScript's truthiness of
  such a string (\<open>!x\<close>, \<open>x || y\<close>, \<open>x && y\<close>) is \<open>truthy\<close>: present and not empty.
\<close>

definition truthy :: "string option \<Rightarrow> bool" where
  "truthy v = (case v of None \<Rightarrow> False | Some s \<Rightarrow> s \<noteq> [])"

record PackageJson =
  dependencies :: "(string \<times> string) list option"
  devDependencies :: "(string \<times> string) list option"

record ThemeSuggestionInput =
  packageJson :: "PackageJson option"
  files :: "string list"
  remoteUrl :: "string option"
  readmeContent :: "string option"
  repoDescription :: "string option"

definition THEME_KEYWORDS :: "(string \<times> string list) list" where
  "THEME_KEYWORDS =
     [(''nextjs'', [''next.js'', ''nextjs'', ''react'', ''typescript'', ''tailwind'', ''vercel'',
                    ''frontend'', ''web app'', ''dashboard'', ''ui'', ''component'']),
      (''python'', [''python'', ''django'', ''flask'', ''fastapi'', ''pytorch'', ''tensorflow'',
                    ''machine learning'', ''ml'', ''ai'', ''data science'', ''pandas'', ''numpy'',
                    ''jupyter'', ''notebook'', ''pip'', ''conda'']),
      (''experiments'', [''experiment'', ''poc'', ''proof of concept'', ''prototype'', ''demo'',
                    ''learning'', ''tutorial'', ''playground'', ''sandbox'', ''test'', ''example'']),
      (''archived'', [''archived'', ''deprecated'', ''legacy'', ''old'', ''unmaintained'',
                    ''no longer maintained'', ''obsolete'', ''inactive''])]"

definition archived_keywords :: "string list" where
  "archived_keywords = (case map_of THEME_KEYWORDS ''archived'' of Some kws \<Rightarrow> kws | None \<Rightarrow> [])"

text \<open>\<open>packageJson?.dependencies?.next\<close> and its siblings, as a truthiness test.\<close>

definition has_dependency :: "PackageJson option \<Rightarrow> string \<Rightarrow> bool" where
  "has_dependency pj dep =
     (case pj of None \<Rightarrow> False
      | Some p \<Rightarrow> (case dependencies p of None \<Rightarrow> False | Some ds \<Rightarrow> truthy (map_of ds dep)))"

definition has_devDependency :: "PackageJson option \<Rightarrow> string \<Rightarrow> bool" where
  "has_devDependency pj dep =
     (case pj of None \<Rightarrow> False
      | Some p \<Rightarrow> (case devDependencies p of None \<Rightarrow> False | Some ds \<Rightarrow> truthy (map_of ds dep)))"

definition url_includes :: "string option \<Rightarrow> string \<Rightarrow> bool" where
  "url_includes url kw = (case url of None \<Rightarrow> False | Some u \<Rightarrow> str_includes u kw)"

definition textContent :: "ThemeSuggestionInput \<Rightarrow> string" where
  "textContent input =
     toLowerCase (join_with '' ''
       [case readmeContent input of None \<Rightarrow> [] | Some r \<Rightarrow> r,
        case repoDescription input of None \<Rightarrow> [] | Some d \<Rightarrow> d])"

definition pythonIndicators :: "string list" where
  "pythonIndicators = [''requirements.txt'', ''setup.py'', ''pyproject.toml'', ''Pipfile'']"

definition scores :: "string \<Rightarrow> (string \<times> nat) list" where
  "scores text =
     map (\<lambda>(theme, keywords). (theme, length (filter (\<lambda>kw. str_includes text kw) keywords)))
         THEME_KEYWORDS"

text \<open>
  \<open>Object.entries(scores).filter(score > 0).sort((a, b) => b[1] - a[1])[0]\<close>: the sort is
  stable and descending in the score, so \<open>sort_key\<close> on the negated score is the same
  order; \<open>None\<close> is the \<open>undefined\<close> of an empty array.
\<close>

definition bestTheme :: "string \<Rightarrow> (string \<times> nat) option" where
  "bestTheme text =
     (case sort_key (\<lambda>(theme, score). - int score) (filter (\<lambda>(theme, score). score > 0) (scores text))
      of [] \<Rightarrow> None | b # _ \<Rightarrow> Some b)"

definition suggestTheme :: "ThemeSuggestionInput \<Rightarrow> string" where
  "suggestTheme input =
     (let text = textContent input in
      if url_includes (remoteUrl input) ''archived'' \<or>
         url_includes (remoteUrl input) ''deprecated'' \<or>
         (\<exists>kw \<in> set archived_keywords. str_includes text kw)
      then ''archived''
      else if has_dependency (packageJson input) ''next'' \<or>
              has_devDependency (packageJson input) ''next''
      then ''nextjs''
      else if has_dependency (packageJson input) ''react'' \<and>
              \<not> has_dependency (packageJson input) ''next'' \<and>
              \<not> has_devDependency (packageJson input) ''next''
      then ''nextjs''
      else if (\<exists>f \<in> set (files input). f \<in> set pythonIndicators) \<or>
              (\<exists>f \<in> set (files input). suffix ''.py'' f)
      then ''python''
      else if has_dependency (packageJson input) ''vue''
      then ''experiments''
      else (case (if length text > 0 then bestTheme text else None) of
              Some (theme, score) \<Rightarrow> if score \<ge> 2 then theme else ''unclassified''
            | None \<Rightarrow> ''unclassified''))"

text \<open>
  The number of distinct archival keywords that occur in the combined text, which is
  what the keyword table's own score for \<open>archived\<close> counts.
\<close>

definition archival_hits :: "ThemeSuggestionInput \<Rightarrow> nat" where
  "archival_hits input =
     length (filter (\<lambda>kw. str_includes (textContent input) kw) archived_keywords)"

section \<open>The record store\<close>

datatype TriageStatus = Pending | Manual | Auto | Ignored

record Repository =
  repo_id :: int
  repo_name :: string
  originalPath :: string
  physicalPath :: "string option"
  repo_remoteUrl :: "string option"
  lastCommitSha :: "string option"
  isDirty :: bool
  theme :: "string option"
  triageStatus :: TriageStatus

text \<open>
  The \<open>Repository\<close> table is the list of its rows, and the id is its primary key.
  \<open>findUnique\<close> returns the row with the id, \<open>update\<close> rewrites that row and throws when
  there is none, \<open>create\<close> appends a row under the next id of the auto-increment column.
\<close>

type_synonym store = "Repository list"

definition findUnique :: "store \<Rightarrow> int \<Rightarrow> Repository option" where
  "findUnique db i = find (\<lambda>r. repo_id r = i) db"

fun update_first :: "int \<Rightarrow> (Repository \<Rightarrow> Repository) \<Rightarrow> store \<Rightarrow> store" where
  "update_first i f [] = []"
| "update_first i f (r # rs) = (if repo_id r = i then f r # rs else r # update_first i f rs)"

definition update_row :: "store \<Rightarrow> int \<Rightarrow> (Repository \<Rightarrow> Repository) \<Rightarrow> error + store" where
  "update_row db i f =
     (case findUnique db i of
        None \<Rightarrow> Inl (Error ''Record to update not found.'')
      | Some _ \<Rightarrow> Inr (update_first i f db))"

definition next_id :: "store \<Rightarrow> int" where
  "next_id db = fold max (map repo_id db) 0 + 1"

definition create_row :: "store \<Rightarrow> Repository \<Rightarrow> store" where
  "create_row db r = db @ [r\<lparr>repo_id := next_id db\<rparr>]"

text \<open>The invariant of the data model: a physical path is recorded exactly for the
  rows in status \<open>auto\<close>.\<close>

definition path_status_agree :: "Repository \<Rightarrow> bool" where
  "path_status_agree r = ((physicalPath r \<noteq> None) = (triageStatus r = Auto))"

text \<open>
  \<open>refreshed r r'\<close>: the row \<open>r'\<close> is the row \<open>r\<close> except, at most, in the volatile fields
  (remote URL, last commit sha, dirty flag).
\<close>

definition refreshed :: "Repository \<Rightarrow> Repository \<Rightarrow> bool" where
  "refreshed r r' =
     (r' = r\<lparr>repo_remoteUrl := repo_remoteUrl r', lastCommitSha := lastCommitSha r',
            isDirty := isDirty r'\<rparr>)"

section \<open>Scan upsert (\<open>triggerScan\<close>)\<close>

record RepoScanResult =
  sr_name :: string
  sr_path :: string
  sr_remoteUrl :: "string option"
  sr_lastCommitSha :: "string option"
  sr_isDirty :: bool
  suggestedTheme :: "string option"

text \<open>
  \<open>new Map(existingRepos.map(r => [key, r.id]))\<close>: a later row with the same key replaces
  an earlier one.
\<close>

definition existingPathMap :: "store \<Rightarrow> string \<Rightarrow> int option" where
  "existingPathMap db = map_of (rev (map (\<lambda>r. (path_key (originalPath r), repo_id r)) db))"

record scan_state =
  rows :: store
  newRepos :: nat
  updatedRepos :: nat

text \<open>
  One round of the loop over the scan results. \<open>if (existingId)\<close> is a truthiness test
  of a number, so a missing key and the id 0 both take the \<open>create\<close> branch.
\<close>

definition upsert_result :: "(string \<Rightarrow> int option) \<Rightarrow> RepoScanResult \<Rightarrow> scan_state \<Rightarrow> error + scan_state" where
  "upsert_result pathMap result st =
     (let storedPath = normalizeWindowsPath (sr_path result);
          lookupPath = toLowerCase storedPath;
          existingId = pathMap lookupPath
      in if existingId \<noteq> None \<and> existingId \<noteq> Some 0 then
           (let existingRepo = findUnique (rows st) (the existingId);
                setTheme = (case existingRepo of None \<Rightarrow> False
                            | Some e \<Rightarrow> \<not> truthy (theme e) \<and> truthy (suggestedTheme result))
            in case update_row (rows st) (the existingId)
                      (\<lambda>r. (if setTheme then r\<lparr>theme := suggestedTheme result\<rparr> else r)
                              \<lparr>repo_remoteUrl := sr_remoteUrl result,
                               lastCommitSha := sr_lastCommitSha result,
                               isDirty := sr_isDirty result\<rparr>) of
                 Inl e \<Rightarrow> Inl e
               | Inr db \<Rightarrow> Inr (st\<lparr>rows := db, updatedRepos := updatedRepos st + 1\<rparr>))
         else
           Inr (st\<lparr>rows := create_row (rows st)
                     \<lparr>repo_id = 0, repo_name = sr_name result, originalPath = storedPath,
                      physicalPath = None, repo_remoteUrl = sr_remoteUrl result,
                      lastCommitSha = sr_lastCommitSha result, isDirty = sr_isDirty result,
                      theme = (if truthy (suggestedTheme result) then suggestedTheme result else None),
                      triageStatus = Pending\<rparr>,
                   newRepos := newRepos st + 1\<rparr>))"

text \<open>
  The loop. A throw leaves the loop for the action's \<open>catch\<close>; the rows written before it
  stay written, so the state reached is returned next to the error.
\<close>

fun upsert_all :: "(string \<Rightarrow> int option) \<Rightarrow> RepoScanResult list \<Rightarrow> scan_state \<Rightarrow> scan_state \<times> error option" where
  "upsert_all pathMap [] st = (st, None)"
| "upsert_all pathMap (result # results) st =
     (case upsert_result pathMap result st of
        Inl e \<Rightarrow> (st, Some e)
      | Inr st' \<Rightarrow> upsert_all pathMap results st')"

definition scan_upsert :: "store \<Rightarrow> RepoScanResult list \<Rightarrow> scan_state \<times> error option" where
  "scan_upsert db scanResults =
     upsert_all (existingPathMap db) scanResults \<lparr>rows = db, newRepos = 0, updatedRepos = 0\<rparr>"

section \<open>Repository actions (\<open>src/lib/actions/repositories.ts\<close>)\<close>

text \<open>
  An action result: \<open>Failure error\<close> is \<open>{success: false, error}\<close>, \<open>Success data message\<close>
  is \<open>{success: true, data, message}\<close> (the message is optional). The validation schemas
  ask for a positive integer id and a non-empty theme. The text of a failed validation
  belongs to the validation library: \<open>issueMessage\<close> is its \<open>issues[0]?.message\<close>, and the
  action falls back to its own text when that is missing or empty.
\<close>

datatype 'a ActionResult = Failure string | Success 'a "string option"

definition dquote :: string where
  "dquote = [CHR 0x22]"

definition assignTheme ::
  "string option \<Rightarrow> store \<Rightarrow> int \<Rightarrow> string \<Rightarrow> store \<times> unit ActionResult" where
  "assignTheme issueMessage db repoId th =
     (if \<not> (repoId > 0 \<and> length th \<ge> 1)
      then (db, Failure (if truthy issueMessage then the issueMessage else ''Invalid data''))
      else case findUnique db repoId of
        None \<Rightarrow> (db, Failure ''Repository not found'')
      | Some repo \<Rightarrow>
          (case update_row db repoId (\<lambda>r. r\<lparr>theme := Some th, triageStatus := Manual\<rparr>) of
             Inl (Error msg) \<Rightarrow> (db, Failure msg)
           | Inr db' \<Rightarrow>
               (db', Success ()
                  (Some (''Theme '' @ dquote @ th @ dquote @ '' assigned to '' @ repo_name repo)))))"

text \<open>\<open>updateMany\<close> rewrites every row whose id is listed.\<close>

definition updateMany :: "store \<Rightarrow> int list \<Rightarrow> (Repository \<Rightarrow> Repository) \<Rightarrow> store" where
  "updateMany db ids f = map (\<lambda>r. if repo_id r \<in> set ids then f r else r) db"

definition bulkAssignTheme ::
  "string option \<Rightarrow> store \<Rightarrow> int list \<Rightarrow> string \<Rightarrow> store \<times> unit ActionResult" where
  "bulkAssignTheme issueMessage db repoIds th =
     (if \<not> (length repoIds \<ge> 1 \<and> list_all (\<lambda>i. i > 0) repoIds \<and> length th \<ge> 1)
      then (db, Failure (if truthy issueMessage then the issueMessage else ''Invalid data''))
      else (updateMany db repoIds (\<lambda>r. r\<lparr>theme := Some th, triageStatus := Manual\<rparr>),
            Success ()
              (Some (''Theme '' @ dquote @ th @ dquote @ '' assigned to '' @
                     string_of_nat (length repoIds) @ '' repositories''))))"

definition status_name :: "TriageStatus \<Rightarrow> string" where
  "status_name s = (case s of Pending \<Rightarrow> ''pending'' | Manual \<Rightarrow> ''manual''
                    | Auto \<Rightarrow> ''auto'' | Ignored \<Rightarrow> ''ignored'')"

definition setTriageStatus :: "store \<Rightarrow> int \<Rightarrow> TriageStatus \<Rightarrow> store \<times> unit ActionResult" where
  "setTriageStatus db repoId status =
     (case findUnique db repoId of
        None \<Rightarrow> (db, Failure ''Repository not found'')
      | Some repo \<Rightarrow>
          (case update_row db repoId (\<lambda>r. r\<lparr>triageStatus := status\<rparr>) of
             Inl (Error msg) \<Rightarrow> (db, Failure msg)
           | Inr db' \<Rightarrow>
               (db', Success () (Some (''Status updated to '' @ dquote @ status_name status @ dquote)))))"

definition ignoreRepository :: "store \<Rightarrow> int \<Rightarrow> store \<times> unit ActionResult" where
  "ignoreRepository db repoId = setTriageStatus db repoId Ignored"

text \<open>\<open>delete\<close> removes the row with the id and throws when there is none.\<close>

definition deleteRepositoryRecord :: "store \<Rightarrow> int \<Rightarrow> store \<times> unit ActionResult" where
  "deleteRepositoryRecord db repoId =
     (case findUnique db repoId of
        None \<Rightarrow> (db, Failure ''Record to delete does not exist.'')
      | Some _ \<Rightarrow>
          (filter (\<lambda>r. repo_id r \<noteq> repoId) db,
           Success () (Some ''Repository removed from database'')))"

text \<open>
  \<open>refreshRepositoryStatus\<close> probes the repository again; \<open>info\<close> is what \<open>getRepoInfo\<close>
  returned, or \<open>None\<close> when it threw.
\<close>

record GitRepoInfo =
  info_remoteUrl :: "string option"
  info_lastCommitSha :: "string option"
  info_currentBranch :: "string option"
  info_isDirty :: bool

definition refreshRepositoryStatus ::
  "store \<Rightarrow> int \<Rightarrow> GitRepoInfo option \<Rightarrow> store \<times> unit ActionResult" where
  "refreshRepositoryStatus db repoId info =
     (case findUnique db repoId of
        None \<Rightarrow> (db, Failure ''Repository not found'')
      | Some repo \<Rightarrow>
          (case info of
             None \<Rightarrow>
               (db, Failure ''Could not access repository. It may have been moved or deleted.'')
           | Some i \<Rightarrow>
               (case update_row db repoId
                       (\<lambda>r. r\<lparr>lastCommitSha := info_lastCommitSha i, isDirty := info_isDirty i,
                               repo_remoteUrl := info_remoteUrl i\<rparr>) of
                  Inl e \<Rightarrow>
                    (db, Failure ''Could not access repository. It may have been moved or deleted.'')
                | Inr db' \<Rightarrow> (db', Success () (Some ''Repository status refreshed'')))))"

section \<open>Move planner (\<open>generateMovePreview\<close> in \<open>src/lib/actions/triage.ts\<close>)\<close>

record Settings =
  organizationRoot :: "string option"

record MovePreview =
  mv_repoId :: int
  mv_repoName :: string
  mv_from :: string
  mv_to :: string
  mv_theme :: string
  conflicts :: "string list"
  warnings :: "string list"

text \<open>\<open>Set.add\<close> on the working set of existing paths, kept in insertion order.\<close>

definition set_add :: "string list \<Rightarrow> string \<Rightarrow> string list" where
  "set_add xs x = (if x \<in> set xs then xs else xs @ [x])"

text \<open>
  One round of the loop over the repositories found. It returns the working set and the
  preview entry, or the error thrown by \<open>generateConflictFreePath\<close>.
\<close>

definition preview_repo :: "string \<Rightarrow> Repository \<Rightarrow> string list \<Rightarrow> error + (string list \<times> MovePreview)" where
  "preview_repo root repo existingPaths =
     (case (if truthy (theme repo) then theme repo else None) of
        None \<Rightarrow>
          Inr (existingPaths,
               \<lparr>mv_repoId = repo_id repo, mv_repoName = repo_name repo,
                mv_from = originalPath repo, mv_to = [], mv_theme = [],
                conflicts = [''No theme assigned''], warnings = []\<rparr>)
      | Some th \<Rightarrow>
          (let targetDir = joinPaths [root, th];
               targetPath = joinPaths [targetDir, repo_name repo];
               dirty = (if isDirty repo then [''Repository has uncommitted changes''] else []);
               sourcePath = (case physicalPath repo of
                               Some p \<Rightarrow> if p \<noteq> [] then p else originalPath repo
                             | None \<Rightarrow> originalPath repo);
               cross = (if \<not> isSameDrive sourcePath targetPath
                        then [''Cross-drive move (will copy and delete)''] else [])
           in if path_key targetPath \<in> set existingPaths then
                (case generateConflictFreePath targetPath existingPaths of
                   Inl e \<Rightarrow> Inl e
                 | Inr newPath \<Rightarrow>
                     Inr (set_add existingPaths (path_key newPath),
                          \<lparr>mv_repoId = repo_id repo, mv_repoName = repo_name repo,
                           mv_from = sourcePath, mv_to = newPath, mv_theme = th,
                           conflicts = [],
                           warnings = dirty @ cross @
                             [''Path conflict: will use '' @ getRepoNameFromPath newPath]\<rparr>))
              else
                Inr (set_add existingPaths (path_key targetPath),
                     \<lparr>mv_repoId = repo_id repo, mv_repoName = repo_name repo,
                      mv_from = sourcePath, mv_to = targetPath, mv_theme = th,
                      conflicts = [], warnings = dirty @ cross\<rparr>)))"

fun preview_loop :: "string \<Rightarrow> Repository list \<Rightarrow> string list \<Rightarrow> error + MovePreview list" where
  "preview_loop root [] existingPaths = Inr []"
| "preview_loop root (repo # repos) existingPaths =
     (case preview_repo root repo existingPaths of
        Inl e \<Rightarrow> Inl e
      | Inr (existingPaths', entry) \<Rightarrow>
          (case preview_loop root repos existingPaths' of
             Inl e \<Rightarrow> Inl e
           | Inr entries \<Rightarrow> Inr (entry # entries)))"

text \<open>\<open>prisma.repository.findMany({where: {id: {in: repoIds}}})\<close>: the rows whose id is
  requested, in table order.\<close>

definition findMany_in :: "store \<Rightarrow> int list \<Rightarrow> Repository list" where
  "findMany_in db repoIds = filter (\<lambda>r. repo_id r \<in> set repoIds) db"

text \<open>
  \<open>existing\<close> is what \<open>getExistingPaths\<close> read from the organization root: the keys of
  the \<open>theme/repository\<close> directories found there.
\<close>

definition generateMovePreview ::
  "Settings option \<Rightarrow> store \<Rightarrow> string list \<Rightarrow> int list \<Rightarrow> MovePreview list ActionResult" where
  "generateMovePreview settings db existing repoIds =
     (case (case settings of None \<Rightarrow> None
            | Some s \<Rightarrow> if truthy (organizationRoot s) then organizationRoot s else None) of
        None \<Rightarrow> Failure ''Organization root not configured. Update Settings first.''
      | Some root \<Rightarrow>
          (let repos = findMany_in db repoIds
           in if length repos = 0 then Failure ''No repositories found''
              else (case preview_loop root repos existing of
                      Inl (Error msg) \<Rightarrow> Failure msg
                    | Inr previews \<Rightarrow> Success previews None)))"

text \<open>
  A preview entry accounts for a repository found in the store: it carries its id and
  name, and it is either the blocked entry of a repository without a theme or an entry
  without conflicts under the repository's theme.
\<close>

definition accounts_for :: "Repository \<Rightarrow> MovePreview \<Rightarrow> bool" where
  "accounts_for repo entry \<longleftrightarrow>
     mv_repoId entry = repo_id repo \<and> mv_repoName entry = repo_name repo \<and>
     (if truthy (theme repo)
      then theme repo = Some (mv_theme entry) \<and> conflicts entry = []
      else mv_to entry = [] \<and> mv_theme entry = [] \<and> conflicts entry = [''No theme assigned''])"

section \<open>Move executor (\<open>executeMoves\<close> in \<open>src/lib/actions/triage.ts\<close>)\<close>

text \<open>
  The file system and the record store are reached through effects. An effect that is
  attempted is appended to the trace, and the environment decides, from the trace so far
  and the effect, whether it throws (\<open>Some message\<close>) or succeeds (\<open>None\<close>). The
  environment also gives the platform's \<open>path.join\<close> and \<open>path.dirname\<close> and, for the
  cross-volume copy, the directory tree found under a source path. That tree is finite and
  is read as it was when the copy began.
\<close>

datatype effect =
    Mkdir string
  | Access string
  | Rename string string
  | Readdir string
  | Readlink string
  | Symlink string string
  | CopyFile string string
  | Rm string
  | DbUpdate int

datatype fsnode = FileN | LinkN string | DirN "(string \<times> fsnode) list"

record env =
  fails :: "effect list \<Rightarrow> effect \<Rightarrow> string option"
  contents :: "effect list \<Rightarrow> string \<Rightarrow> (string \<times> fsnode) list"
  path_join :: "string \<Rightarrow> string \<Rightarrow> string"
  path_dirname :: "string \<Rightarrow> string"

definition attempt :: "env \<Rightarrow> effect \<Rightarrow> effect list \<Rightarrow> effect list \<times> string option" where
  "attempt E eff h = (h @ [eff], fails E h eff)"

text \<open>
  \<open>copyDirectory\<close>: create the destination, list the source, then for each entry in
  listing order: a symbolic link is read and re-created as a link, a directory is copied
  recursively, anything else is copied as a file. The first effect that throws ends the
  copy with its error.
\<close>

function copyDirectory ::
    "env \<Rightarrow> string \<Rightarrow> string \<Rightarrow> (string \<times> fsnode) list \<Rightarrow> effect list \<Rightarrow> effect list \<times> string option"
  and copyEntries ::
    "env \<Rightarrow> string \<Rightarrow> string \<Rightarrow> (string \<times> fsnode) list \<Rightarrow> effect list \<Rightarrow> effect list \<times> string option"
where
  "copyDirectory E src dest entries h =
     (case attempt E (Mkdir dest) h of
        (h1, Some e) \<Rightarrow> (h1, Some e)
      | (h1, None) \<Rightarrow>
          (case attempt E (Readdir src) h1 of
             (h2, Some e) \<Rightarrow> (h2, Some e)
           | (h2, None) \<Rightarrow> copyEntries E src dest entries h2))"
| "copyEntries E src dest [] h = (h, None)"
| "copyEntries E src dest ((name, node) # rest) h =
     (let srcPath = path_join E src name; destPath = path_join E dest name in
      case (case node of
              LinkN linkTarget \<Rightarrow>
                (case attempt E (Readlink srcPath) h of
                   (h1, Some e) \<Rightarrow> (h1, Some e)
                 | (h1, None) \<Rightarrow> attempt E (Symlink linkTarget destPath) h1)
            | DirN sub \<Rightarrow> copyDirectory E srcPath destPath sub h
            | FileN \<Rightarrow> attempt E (CopyFile srcPath destPath) h) of
        (h', Some e) \<Rightarrow> (h', Some e)
      | (h', None) \<Rightarrow> copyEntries E src dest rest h')"
  by pat_completeness auto
termination
  by (relation "measure (\<lambda>x. case x of
          Inl (E, src, dest, entries, h) \<Rightarrow> Suc (size_list (size_prod (\<lambda>_. 0) size) entries)
        | Inr (E, src, dest, entries, h) \<Rightarrow> size_list (size_prod (\<lambda>_. 0) size) entries)") auto

declare copyDirectory.simps [simp del]

text \<open>
  The effects a copy may perform: it creates, lists, reads links and writes; it never
  renames and never removes.
\<close>

definition is_copy_effect :: "effect \<Rightarrow> bool" where
  "is_copy_effect e =
     (case e of Mkdir _ \<Rightarrow> True | Readdir _ \<Rightarrow> True | Readlink _ \<Rightarrow> True
      | Symlink _ _ \<Rightarrow> True | CopyFile _ _ \<Rightarrow> True | _ \<Rightarrow> False)"

definition is_write :: "effect \<Rightarrow> bool" where
  "is_write e =
     (case e of Mkdir _ \<Rightarrow> True | Symlink _ _ \<Rightarrow> True | CopyFile _ _ \<Rightarrow> True | _ \<Rightarrow> False)"


datatype ConflictMode = Suffix | Skip | Fail

record MoveOptions =
  createBackup :: bool
  handleConflicts :: ConflictMode

definition DEFAULT_MOVE_OPTIONS :: MoveOptions where
  "DEFAULT_MOVE_OPTIONS = \<lparr>createBackup = False, handleConflicts = Suffix\<rparr>"

record MoveResult =
  success :: bool
  res_repoId :: int
  res_repoName :: string
  res_from :: string
  res_to :: string
  res_error :: "string option"

record exec_state =
  trace :: "effect list"
  repos :: store
  results :: "MoveResult list"
  successful :: nat
  failed :: nat

definition move_result :: "MovePreview \<Rightarrow> string option \<Rightarrow> MoveResult" where
  "move_result m err =
     \<lparr>success = (err = None), res_repoId = mv_repoId m, res_repoName = mv_repoName m,
      res_from = mv_from m, res_to = mv_to m, res_error = err\<rparr>"

definition record_failure :: "MovePreview \<Rightarrow> string \<Rightarrow> effect list \<Rightarrow> exec_state \<Rightarrow> exec_state" where
  "record_failure m msg h st =
     st\<lparr>trace := h, results := results st @ [move_result m (Some msg)], failed := failed st + 1\<rparr>"

text \<open>The relocation itself: one rename on the same drive, copy then delete otherwise.\<close>

definition relocate :: "env \<Rightarrow> MovePreview \<Rightarrow> effect list \<Rightarrow> effect list \<times> string option" where
  "relocate E m h =
     (if isSameDrive (mv_from m) (mv_to m) then attempt E (Rename (mv_from m) (mv_to m)) h
      else (case copyDirectory E (mv_from m) (mv_to m) (contents E h (mv_from m)) h of
              (h1, Some e) \<Rightarrow> (h1, Some e)
            | (h1, None) \<Rightarrow> attempt E (Rm (mv_from m)) h1))"

text \<open>
  The body of the loop over the valid moves. Every throw inside it is caught by the
  entry's own \<open>catch\<close>, which records a failure under the error's message.
\<close>

definition moveOne :: "env \<Rightarrow> MoveOptions \<Rightarrow> MovePreview \<Rightarrow> exec_state \<Rightarrow> exec_state" where
  "moveOne E options m st =
     (case attempt E (Mkdir (path_dirname E (mv_to m))) (trace st) of
        (h1, Some e) \<Rightarrow> record_failure m e h1 st
      | (h1, None) \<Rightarrow>
     (case attempt E (Access (mv_from m)) h1 of
        (h2, Some _) \<Rightarrow> record_failure m ''Source directory not found'' h2 st
      | (h2, None) \<Rightarrow>
     (case attempt E (Access (mv_to m)) h2 of (h3, missing) \<Rightarrow>
        if missing = None \<and> handleConflicts options = Skip
          then record_failure m ''Target already exists (skipped)'' h3 st
        else if missing = None \<and> handleConflicts options = Fail
          then record_failure m ''Target already exists'' h3 st
        else
     (case relocate E m h3 of
        (h4, Some e) \<Rightarrow> record_failure m e h4 st
      | (h4, None) \<Rightarrow>
     (case attempt E (DbUpdate (mv_repoId m)) h4 of
        (h5, Some e) \<Rightarrow> record_failure m e h5 st
      | (h5, None) \<Rightarrow>
     (case update_row (repos st) (mv_repoId m)
             (\<lambda>r. r\<lparr>physicalPath := Some (normalizeWindowsPath (mv_to m)),
                     triageStatus := Auto\<rparr>) of
        Inl (Error e) \<Rightarrow> record_failure m e h5 st
      | Inr db' \<Rightarrow>
          st\<lparr>trace := h5, repos := db',
             results := results st @ [move_result m None],
             successful := successful st + 1\<rparr>))))))"



definition validMoves :: "MovePreview list \<Rightarrow> MovePreview list" where
  "validMoves moves = filter (\<lambda>m. length (conflicts m) = 0 \<and> mv_to m \<noteq> []) moves"

record MoveSummary =
  sum_successful :: nat
  sum_failed :: nat
  sum_results :: "MoveResult list"

definition executeMoves ::
  "env \<Rightarrow> MoveOptions \<Rightarrow> MovePreview list \<Rightarrow> effect list \<Rightarrow> store
     \<Rightarrow> (effect list \<times> store) \<times> MoveSummary ActionResult" where
  "executeMoves E options moves h db =
     (if length (validMoves moves) = 0
      then ((h, db), Failure ''No valid moves to execute. Resolve conflicts first.'')
      else (let st = fold (moveOne E options) (validMoves moves)
                       \<lparr>trace = h, repos = db, results = [], successful = 0, failed = 0\<rparr>
            in ((trace st, repos st),
                Success \<lparr>sum_successful = successful st, sum_failed = failed st,
                         sum_results = results st\<rparr>
                  (Some (''Moved '' @ string_of_nat (successful st) @ '' repositories'' @
                     (if failed st > 0 then '', '' @ string_of_nat (failed st) @ '' failed''
                      else []))))))"

text \<open>
  What identifies the entry a result belongs to, and the agreement of the two counters
  with the results recorded.
\<close>

definition result_key :: "MoveResult \<Rightarrow> int \<times> string \<times> string \<times> string" where
  "result_key r = (res_repoId r, res_repoName r, res_from r, res_to r)"

definition move_key :: "MovePreview \<Rightarrow> int \<times> string \<times> string \<times> string" where
  "move_key m = (mv_repoId m, mv_repoName m, mv_from m, mv_to m)"

definition tally_ok :: "exec_state \<Rightarrow> bool" where
  "tally_ok st \<longleftrightarrow>
     successful st = length (filter success (results st)) \<and>
     failed st = length (filter (\<lambda>r. \<not> success r) (results st))"

section \<open>The stores the application can reach\<close>

text \<open>
  The table is empty after installation, and its rows are written by the public actions
  only: the scan, theme assignment (single and bulk), the triage-status change, the
  status refresh, the deletion of a record and the move execution, each with any
  arguments and in any environment.
\<close>

inductive reachable :: "store \<Rightarrow> bool" where
  reachable_empty: "reachable []"
| reachable_scan: "reachable db \<Longrightarrow> reachable (rows (fst (scan_upsert db scanResults)))"
| reachable_assign: "reachable db \<Longrightarrow> reachable (fst (assignTheme issueMessage db repoId th))"
| reachable_bulk:
    "reachable db \<Longrightarrow> reachable (fst (bulkAssignTheme issueMessage db repoIds th))"
| reachable_status: "reachable db \<Longrightarrow> reachable (fst (setTriageStatus db repoId status))"
| reachable_refresh: "reachable db \<Longrightarrow> reachable (fst (refreshRepositoryStatus db repoId info))"
| reachable_delete: "reachable db \<Longrightarrow> reachable (fst (deleteRepositoryRecord db repoId))"
| reachable_moves:
    "reachable db \<Longrightarrow> reachable (snd (fst (executeMoves E options moves h db)))"

section \<open>Discovery walker (\<open>findGitRepos\<close>)\<close>

text \<open>
  The directory tree under the scan root: an entry is not a directory, a directory that
  cannot be listed, or a directory with its entries in listing order.
\<close>

datatype dnode = NotDir | Unreadable | Directory "(string \<times> dnode) list"

definition is_directory :: "dnode \<Rightarrow> bool" where
  "is_directory n = (n \<noteq> NotDir)"

definition shouldSkipDirectory :: "string \<Rightarrow> bool" where
  "shouldSkipDirectory name \<longleftrightarrow> name \<in> set
     [''node_modules'', ''vendor'', ''.cache'', ''__pycache__'', ''.venv'', ''venv'', ''env'',
      ''.env'', ''dist'', ''build'', ''out'', ''target'', ''.next'', ''.nuxt'', ''.output'',
      ''coverage'']"

text \<open>\<open>s.replace(/\/+/g, '/')\<close>: runs of forward slashes only.\<close>

fun collapse_slashes :: "bool \<Rightarrow> string \<Rightarrow> string" where
  "collapse_slashes in_run [] = []"
| "collapse_slashes in_run (c # cs) =
     (if c = slash then (if in_run then collapse_slashes True cs else slash # collapse_slashes True cs)
      else c # collapse_slashes False cs)"

definition child_path :: "string \<Rightarrow> string \<Rightarrow> string" where
  "child_path parent name =
     (let fullPath = parent @ ''/'' @ name;
          isUNC = prefix ''//'' fullPath;
          collapsed = collapse_slashes False fullPath
      in if isUNC then ''/'' @ collapsed else collapsed)"

text \<open>
  The \<open>for\<close> loop over one directory's entries: what it yields and what it pushes on the
  queue. The loop ends at the first \<open>.git\<close> directory it meets.
\<close>

fun scan_entries ::
  "string \<Rightarrow> nat \<Rightarrow> (string \<times> dnode) list \<Rightarrow> string list \<times> (string \<times> nat \<times> dnode) list" where
  "scan_entries path depth [] = ([], [])"
| "scan_entries path depth ((name, node) # rest) =
     (if \<not> is_directory node then scan_entries path depth rest
      else if name = ''.git'' then ([path], [])
      else if prefix ''.'' name then scan_entries path depth rest
      else if shouldSkipDirectory name then scan_entries path depth rest
      else (case scan_entries path depth rest of
              (yielded, pushed) \<Rightarrow> (yielded, (child_path path name, depth + 1, node) # pushed)))"

definition queue_size :: "(string \<times> nat \<times> dnode) list \<Rightarrow> nat" where
  "queue_size queue = sum_list (map (\<lambda>(p, d, n). Suc (size n)) queue)"

text \<open>
  The \<open>while\<close> loop over the queue, which returns the paths yielded in order. A directory
  that cannot be listed, and a queue item that is no directory at all, throw in
  \<open>readdir\<close> and are skipped. The loop ends because the trees waiting in the queue shrink:
  a directory is replaced by some of its own entries.
\<close>

function walk :: "nat \<Rightarrow> (string \<times> nat \<times> dnode) list \<Rightarrow> string list" where
  "walk maxDepth [] = []"
| "walk maxDepth ((path, depth, node) # queue) =
     (if depth > maxDepth then walk maxDepth queue
      else (case node of
              Directory entries \<Rightarrow>
                fst (scan_entries path depth entries) @
                walk maxDepth (queue @ snd (scan_entries path depth entries))
            | _ \<Rightarrow> walk maxDepth queue))"
  by pat_completeness auto
termination
proof (relation "measure (\<lambda>(maxDepth, queue). queue_size queue)")
  fix maxDepth path depth node queue entries
  assume "node = Directory entries"
  moreover have "queue_size (snd (scan_entries path depth entries))
                 \<le> size_list (size_prod (\<lambda>_. 0) size) entries"
    by (induction entries) (auto simp: queue_size_def split: prod.splits)
  ultimately show "((maxDepth, queue @ snd (scan_entries path depth entries)),
              (maxDepth, (path, depth, node) # queue))
             \<in> measure (\<lambda>(maxDepth, queue). queue_size queue)"
    by (simp add: queue_size_def)
qed (auto simp: queue_size_def)

declare walk.simps [simp del]

text \<open>\<open>directory\<close> is the scan root as \<open>normalizeForFs\<close> returned it.\<close>

definition findGitRepos :: "string \<Rightarrow> nat \<Rightarrow> dnode \<Rightarrow> string list" where
  "findGitRepos directory maxDepth root = walk maxDepth [(directory, 0, root)]"

section \<open>Concrete inputs\<close>

text \<open>A repository that was assigned a theme by hand and has not been moved.\<close>

definition themed_repo :: Repository where
  "themed_repo =
     \<lparr>repo_id = 1, repo_name = ''app'', originalPath = ''C:/src/app'', physicalPath = None,
      repo_remoteUrl = None, lastCommitSha = None, isDirty = False,
      theme = Some ''python'', triageStatus = Manual\<rparr>"

text \<open>A second repository, discovered by a scan and not yet given a theme.\<close>

definition unthemed_repo :: Repository where
  "unthemed_repo =
     themed_repo\<lparr>repo_id := 2, repo_name := ''lib'', originalPath := ''C:/src/lib'',
                 theme := None, triageStatus := Pending\<rparr>"

text \<open>The same repository after it was moved under the organization root.\<close>

definition organized_repo :: Repository where
  "organized_repo =
     themed_repo\<lparr>physicalPath := Some ''C:/org/python/app'', triageStatus := Auto\<rparr>"

text \<open>What a re-scan finds at the repository's original path.\<close>

definition rescan_result :: RepoScanResult where
  "rescan_result =
     \<lparr>sr_name = ''app'', sr_path = ''c:/src/app'', sr_remoteUrl = Some ''git@host:app.git'',
      sr_lastCommitSha = Some ''abc123'', sr_isDirty = True, suggestedTheme = Some ''nextjs''\<rparr>"

text \<open>Settings with an organization root.\<close>

definition example_settings :: Settings where
  "example_settings = \<lparr>organizationRoot = Some ''C:/org''\<rparr>"


text \<open>A move on one drive, a move across drives, and an entry the planner blocked.\<close>

definition example_move :: MovePreview where
  "example_move =
     \<lparr>mv_repoId = 1, mv_repoName = ''app'', mv_from = ''C:/src/app'',
      mv_to = ''C:/org/python/app'', mv_theme = ''python'', conflicts = [], warnings = []\<rparr>"


definition blocked_move :: MovePreview where
  "blocked_move =
     \<lparr>mv_repoId = 2, mv_repoName = ''lib'', mv_from = ''C:/src/lib'', mv_to = [],
      mv_theme = [], conflicts = [''No theme assigned''], warnings = []\<rparr>"

text \<open>
  An environment in which nothing exists yet under \<open>C:/org\<close> and no effect throws
  otherwise, and one in which no path can be accessed at all. The source directory holds
  a file, a symbolic link and a subdirectory.
\<close>

definition example_tree :: "(string \<times> fsnode) list" where
  "example_tree =
     [(''README.md'', FileN), (''current'', LinkN ''releases/v1''),
      (''src'', DirN [(''main.py'', FileN)])]"

definition example_env :: env where
  "example_env =
     \<lparr>fails = (\<lambda>h e. case e of
                  Access p \<Rightarrow> if prefix ''C:/org'' p then Some ''ENOENT'' else None
                | _ \<Rightarrow> None),
      contents = (\<lambda>h p. example_tree),
      path_join = (\<lambda>a b. a @ ''/'' @ b),
      path_dirname = (\<lambda>p. rev (tl (dropWhile (\<lambda>c. c \<noteq> slash) (rev p))))\<rparr>"

definition no_source_env :: env where
  "no_source_env =
     example_env\<lparr>fails := (\<lambda>h e. case e of Access p \<Rightarrow> Some ''ENOENT'' | _ \<Rightarrow> None)\<rparr>"

text \<open>A repository whose checkout holds a second repository, listed before \<open>.git\<close>.\<close>

definition nested_tree :: dnode where
  "nested_tree =
     Directory [(''sub'', Directory [(''.git'', Directory [])]), (''.git'', Directory [])]"

text \<open>A readme with one archival keyword and no other signal.\<close>

definition one_keyword_input :: ThemeSuggestionInput where
  "one_keyword_input =
     \<lparr>packageJson = None, files = [], remoteUrl = None,
      readmeContent = Some ''An old project'', repoDescription = None\<rparr>"

text \<open>A readme in which an archival keyword occurs only inside another word.\<close>

definition folder_input :: ThemeSuggestionInput where
  "folder_input = one_keyword_input\<lparr>readmeContent := Some ''This folder contains code''\<rparr>"

text \<open>
  A store reached from the empty table: a scan discovers the repository, then a theme is
  assigned to it by hand.
\<close>

definition first_scan_result :: RepoScanResult where
  "first_scan_result =
     \<lparr>sr_name = ''app'', sr_path = ''C:/src/app'', sr_remoteUrl = None,
      sr_lastCommitSha = None, sr_isDirty = False, suggestedTheme = Some ''python''\<rparr>"

definition scanned_store :: store where
  "scanned_store =
     fst (assignTheme None (rows (fst (scan_upsert [] [first_scan_result]))) 1 ''python'')"

section \<open>Properties of the path utilities\<close>

subsection \<open>The suffix search\<close>

lemma suffix_loop_free:
  "n \<le> k \<Longrightarrow> k \<le> 100 \<Longrightarrow> key_with lc (candidate b k) \<notin> set ex \<Longrightarrow>
   (\<forall>j. n \<le> j \<and> j < k \<longrightarrow> key_with lc (candidate b j) \<in> set ex) \<Longrightarrow>
   suffix_loop lc b ex n = Inr (candidate b k)"
proof (induction lc b ex n rule: suffix_loop.induct)
  case (1 lc b ex n)
  show ?case
  proof (cases "n = k")
    case True
    with "1.prems" show ?thesis by (subst suffix_loop.simps) simp
  next
    case False
    with "1.prems" have lt: "n < k" by simp
    with "1.prems" have taken: "key_with lc (candidate b n) \<in> set ex" by simp
    have small: "\<not> n + 1 > 100" using lt "1.prems" by simp
    have "suffix_loop lc b ex (n + 1) = Inr (candidate b k)"
      using "1.IH" [OF _ small] taken lt "1.prems" by simp
    then show ?thesis using taken small by (subst suffix_loop.simps) simp
  qed
qed

lemma suffix_loop_exhausted:
  "n \<le> 100 \<Longrightarrow> (\<forall>j. n \<le> j \<and> j \<le> 100 \<longrightarrow> key_with lc (candidate b j) \<in> set ex) \<Longrightarrow>
   suffix_loop lc b ex n = Inl (Error ''Too many path conflicts'')"
proof (induction lc b ex n rule: suffix_loop.induct)
  case (1 lc b ex n)
  have taken: "key_with lc (candidate b n) \<in> set ex" using "1.prems" by simp
  show ?case
  proof (cases "n + 1 > 100")
    case True
    then show ?thesis using taken by (subst suffix_loop.simps) simp
  next
    case False
    then have "suffix_loop lc b ex (n + 1) = Inl (Error ''Too many path conflicts'')"
      using "1.IH" [OF _ False] taken "1.prems" by simp
    then show ?thesis using taken False by (subst suffix_loop.simps) simp
  qed
qed

lemma key_with_toLowerCase: "key_with toLowerCase p = path_key p"
  by (simp add: key_with_def path_key_def)

lemma lower_char_digit: "d < 10 \<Longrightarrow> lower_char (digit_char d) = digit_char d"
  by (simp add: lower_char_def digit_char_def Let_def)

lemma digit_char_not_backslash: "d < 10 \<Longrightarrow> digit_char d \<noteq> backslash"
proof
  assume d: "d < 10" and eq: "digit_char d = backslash"
  have "(of_char (digit_char d) :: nat) = 48 + d" using d by (simp add: digit_char_def)
  moreover have "(of_char backslash :: nat) = 92" by (simp add: backslash_def)
  ultimately show False using eq d by simp
qed

lemma path_key_digit: "d < 10 \<Longrightarrow> path_key [digit_char d] = [digit_char d]"
  by (simp add: path_key_def normalizeWindowsPath_def toLowerCase_def
        lower_char_digit digit_char_not_backslash)

lemma path_key_append: "path_key (a @ b) = path_key a @ path_key b"
  by (simp add: path_key_def normalizeWindowsPath_def toLowerCase_def)

lemma path_key_string_of_nat: "path_key (string_of_nat n) = string_of_nat n"
proof (induction n rule: string_of_nat.induct)
  case (1 n)
  show ?case
  proof (cases "n < 10")
    case True
    then show ?thesis by (subst (1 2) string_of_nat.simps) (simp add: path_key_digit)
  next
    case False
    then have "path_key (string_of_nat (n div 10)) = string_of_nat (n div 10)"
      using "1.IH" by simp
    moreover have "path_key [digit_char (n mod 10)] = [digit_char (n mod 10)]"
      by (simp add: path_key_digit)
    ultimately show ?thesis using False
      by (subst (1 2) string_of_nat.simps) (simp add: path_key_append)
  qed
qed

lemma path_key_X_dash:
  "path_key (CHR ''X'' # CHR ''-'' # s) = CHR ''x'' # CHR ''-'' # path_key s"
  "path_key (CHR ''x'' # CHR ''-'' # s) = CHR ''x'' # CHR ''-'' # path_key s"
proof -
  have "path_key ''X-'' = ''x-''" "path_key ''x-'' = ''x-''" by code_simp+
  then show "path_key (CHR ''X'' # CHR ''-'' # s) = CHR ''x'' # CHR ''-'' # path_key s"
    "path_key (CHR ''x'' # CHR ''-'' # s) = CHR ''x'' # CHR ''-'' # path_key s"
    using path_key_append [of "''X-''" s] path_key_append [of "''x-''" s] by simp_all
qed

lemma path_key_x: "path_key ''x'' = ''x''" "path_key ''X'' = ''x''"
  by code_simp+

lemma seq_keys: "map path_key (sequential_conflicts ''x'' n) = sequential_conflicts ''x'' n"
  by (simp add: sequential_conflicts_def path_key_X_dash path_key_string_of_nat path_key_x del: upt_Suc)

lemma seq_taken: "2 \<le> j \<Longrightarrow> j \<le> n \<Longrightarrow> path_key (candidate ''X'' j) \<in> set (sequential_conflicts ''x'' n)"
  by (simp add: sequential_conflicts_def candidate_def path_key_X_dash path_key_string_of_nat del: upt_Suc)

lemma conflicts_101:
  "generateConflictFreePath ''X'' (sequential_conflicts ''x'' 101) =
     Inl (Error ''Too many path conflicts'')"
proof -
  have base: "path_key ''X'' \<in> set (sequential_conflicts ''x'' 101)"
    by (simp add: sequential_conflicts_def path_key_x)
  have "suffix_loop toLowerCase ''X'' (sequential_conflicts ''x'' 101) 2 =
          Inl (Error ''Too many path conflicts'')"
    by (rule suffix_loop_exhausted) (simp_all add: seq_taken key_with_toLowerCase)
  then show ?thesis using base
    by (simp add: generateConflictFreePath_def generateConflictFreePath_with_def
          key_with_toLowerCase [abs_def] seq_keys Let_def)
qed

text \<open>
  C7. Paths are compared by their key: the path with backslashes turned into slashes,
  then in lower case. For every path, every list of existing paths and every lower-casing:
  \<open>generateConflictFreePath\<close> returns the base path unchanged when its key is not among the
  keys of the existing paths. Otherwise it returns the first free candidate \<open>basePath-k\<close>
  with \<open>k\<close> from 2 to 100, and when all of these are taken it throws "Too many path
  conflicts"; it is a total function, so it never loops forever. On the spec's examples:
  \<open>X\<close> against \<open>[x]\<close> gives \<open>X-2\<close>, against \<open>[x, x-2, x-3]\<close> gives \<open>X-4\<close>, and against the
  101 sequential conflicts \<open>x, x-2, ..., x-101\<close> it throws. The comparison without case
  reaches beyond ASCII: the capital E with acute accent (U+00C9) collides with the small
  one (U+00E9).
\<close>

theorem generateConflictFreePath_first_free:
  "(key_with lc basePath \<notin> key_with lc ` set existing \<longrightarrow>
      generateConflictFreePath_with lc basePath existing = Inr basePath) \<and>
   (key_with lc basePath \<in> key_with lc ` set existing \<and> 2 \<le> k \<and> k \<le> 100 \<and>
    key_with lc (candidate basePath k) \<notin> key_with lc ` set existing \<and>
    (\<forall>j. 2 \<le> j \<and> j < k \<longrightarrow> key_with lc (candidate basePath j) \<in> key_with lc ` set existing) \<longrightarrow>
      generateConflictFreePath_with lc basePath existing = Inr (candidate basePath k)) \<and>
   (key_with lc basePath \<in> key_with lc ` set existing \<and>
    (\<forall>j. 2 \<le> j \<and> j \<le> 100 \<longrightarrow> key_with lc (candidate basePath j) \<in> key_with lc ` set existing) \<longrightarrow>
      generateConflictFreePath_with lc basePath existing =
        Inl (Error ''Too many path conflicts'')) \<and>
   generateConflictFreePath basePath existing =
     generateConflictFreePath_with toLowerCase basePath existing \<and>
   key_with toLowerCase p = path_key p \<and>
   (backslash \<notin> set p \<longrightarrow> path_key p = toLowerCase p) \<and>
   generateConflictFreePath ''X'' [''x''] = Inr ''X-2'' \<and>
   generateConflictFreePath ''X'' [''x'', ''x-2'', ''x-3''] = Inr ''X-4'' \<and>
   length (sequential_conflicts ''x'' 101) = 101 \<and>
   generateConflictFreePath ''X'' (sequential_conflicts ''x'' 101) =
     Inl (Error ''Too many path conflicts'') \<and>
   generateConflictFreePath [CHR 0xC9] [[CHR 0xE9]] = Inr [CHR 0xC9, CHR ''-'', CHR ''2'']"
proof -
  have free: "key_with lc basePath \<notin> key_with lc ` set existing \<longrightarrow>
      generateConflictFreePath_with lc basePath existing = Inr basePath"
    by (simp add: generateConflictFreePath_with_def Let_def)
  have first: "key_with lc basePath \<in> key_with lc ` set existing \<and> 2 \<le> k \<and> k \<le> 100 \<and>
    key_with lc (candidate basePath k) \<notin> key_with lc ` set existing \<and>
    (\<forall>j. 2 \<le> j \<and> j < k \<longrightarrow> key_with lc (candidate basePath j) \<in> key_with lc ` set existing) \<longrightarrow>
      generateConflictFreePath_with lc basePath existing = Inr (candidate basePath k)"
    using suffix_loop_free [of 2 k lc basePath "map (key_with lc) existing"]
    by (simp add: generateConflictFreePath_with_def Let_def)
  have exhausted: "key_with lc basePath \<in> key_with lc ` set existing \<and>
    (\<forall>j. 2 \<le> j \<and> j \<le> 100 \<longrightarrow> key_with lc (candidate basePath j) \<in> key_with lc ` set existing) \<longrightarrow>
      generateConflictFreePath_with lc basePath existing =
        Inl (Error ''Too many path conflicts'')"
    using suffix_loop_exhausted [of 2 lc basePath "map (key_with lc) existing"]
    by (simp add: generateConflictFreePath_with_def Let_def)
  have inst: "generateConflictFreePath basePath existing =
     generateConflictFreePath_with toLowerCase basePath existing"
    by (simp add: generateConflictFreePath_def)
  have ex1: "generateConflictFreePath ''X'' [''x''] = Inr ''X-2''" by code_simp
  have ex2: "generateConflictFreePath ''X'' [''x'', ''x-2'', ''x-3''] = Inr ''X-4''" by code_simp
  have ex3: "generateConflictFreePath [CHR 0xC9] [[CHR 0xE9]] = Inr [CHR 0xC9, CHR ''-'', CHR ''2'']"
    by code_simp
  have len: "length (sequential_conflicts ''x'' 101) = 101"
    by (simp add: sequential_conflicts_def)
  have canonical: "backslash \<notin> set p \<longrightarrow> path_key p = toLowerCase p"
  proof
    assume "backslash \<notin> set p"
    then have "map (\<lambda>c. if c = backslash then slash else c) p = p"
      by (induction p) auto
    then show "path_key p = toLowerCase p"
      by (simp add: path_key_def normalizeWindowsPath_def)
  qed
  show ?thesis
    using free first exhausted inst key_with_toLowerCase [of p] ex1 ex2 ex3 canonical len
      conflicts_101
    by blast
qed

theorem generateConflictFreePath_first_free_witness:
  "backslash \<notin> set ''My-App'' \<and> path_key ''My-App'' = ''my-app'' \<and>
   generateConflictFreePath ''A'' [''b''] = Inr ''A'' \<and>
   generateConflictFreePath ''X'' [''x'', ''x-2'', ''x-3''] = Inr ''X-4'' \<and>
   generateConflictFreePath ''X'' (sequential_conflicts ''x'' 100) =
     Inl (Error ''Too many path conflicts'')"
proof -
  note gen = generateConflictFreePath_first_free [where lc = toLowerCase]
  have inst: "\<And>b ex. generateConflictFreePath b ex = generateConflictFreePath_with toLowerCase b ex"
    by (simp add: generateConflictFreePath_def)
  have free: "key_with toLowerCase ''A'' \<notin> key_with toLowerCase ` set [''b'']" by code_simp
  have r1: "generateConflictFreePath ''A'' [''b''] = Inr ''A''"
    using gen [where basePath = "''A''" and existing = "[''b'']"] free inst by simp
  have taken: "key_with toLowerCase ''X'' \<in> key_with toLowerCase ` set [''x'', ''x-2'', ''x-3'']"
    by code_simp
  have k4: "key_with toLowerCase (candidate ''X'' 4)
              \<notin> key_with toLowerCase ` set [''x'', ''x-2'', ''x-3'']" by code_simp
  have t2: "key_with toLowerCase (candidate ''X'' 2)
              \<in> key_with toLowerCase ` set [''x'', ''x-2'', ''x-3'']" by code_simp
  have t3: "key_with toLowerCase (candidate ''X'' 3)
              \<in> key_with toLowerCase ` set [''x'', ''x-2'', ''x-3'']" by code_simp
  have below: "\<forall>j. 2 \<le> j \<and> j < (4::nat) \<longrightarrow>
      key_with toLowerCase (candidate ''X'' j)
        \<in> key_with toLowerCase ` set [''x'', ''x-2'', ''x-3'']"
  proof (intro allI impI)
    fix j :: nat
    assume "2 \<le> j \<and> j < 4"
    then have "j = 2 \<or> j = 3" by arith
    then show "key_with toLowerCase (candidate ''X'' j)
        \<in> key_with toLowerCase ` set [''x'', ''x-2'', ''x-3'']"
      using t2 t3 by auto
  qed
  have c4: "candidate ''X'' 4 = ''X-4''" by code_simp
  have r2: "generateConflictFreePath ''X'' [''x'', ''x-2'', ''x-3''] = Inr ''X-4''"
    using gen [where basePath = "''X''" and existing = "[''x'', ''x-2'', ''x-3'']" and k = 4]
      taken k4 below c4 inst by simp
  have all: "\<forall>j. 2 \<le> j \<and> j \<le> 100 \<longrightarrow>
      key_with toLowerCase (candidate ''X'' j)
        \<in> key_with toLowerCase ` set (sequential_conflicts ''x'' 100)"
    using seq_taken [of _ 100] seq_keys [of 100]
    by (metis key_with_toLowerCase [abs_def] set_map)
  have base: "key_with toLowerCase ''X''
                \<in> key_with toLowerCase ` set (sequential_conflicts ''x'' 100)"
    using seq_keys [of 100]
    by (metis key_with_toLowerCase [abs_def] list.set_intros(1) path_key_x(2)
          sequential_conflicts_def set_map)
  have r3: "generateConflictFreePath ''X'' (sequential_conflicts ''x'' 100) =
     Inl (Error ''Too many path conflicts'')"
    using gen [where basePath = "''X''" and existing = "sequential_conflicts ''x'' 100"]
      all base inst by simp
  have canonical: "backslash \<notin> set ''My-App''" by code_simp
  have lower: "toLowerCase ''My-App'' = ''my-app''" by code_simp
  have r0: "path_key ''My-App'' = ''my-app''"
    using gen [where p = "''My-App''"] canonical lower by simp
  show ?thesis using canonical r0 r1 r2 r3 by simp
qed

subsection \<open>The inside-root test\<close>

text \<open>
  C10. The inside-root test is a prefix test on strings, so it accepts a sibling of the
  root whose name extends the root's name: \<open>C:/repo-backup\<close> does not lie under
  \<open>C:/repo\<close>, and \<open>/srv/repo-backup\<close> does not lie under \<open>/srv/repo\<close>, yet both are
  accepted.
\<close>

theorem isInsideAllowedRoot_accepts_sibling:
  "isInsideAllowedRoot ''/home/user'' ''C:/repo-backup'' ''C:/repo'' \<and>
   \<not> lies_under ''/home/user'' ''C:/repo-backup'' ''C:/repo'' \<and>
   isInsideAllowedRoot ''/'' ''/srv/repo-backup'' ''/srv/repo'' \<and>
   \<not> lies_under ''/'' ''/srv/repo-backup'' ''/srv/repo''"
  by code_simp

section \<open>Properties of the theme classifier\<close>

lemma archived_keywords_eq:
  "archived_keywords = [''archived'', ''deprecated'', ''legacy'', ''old'', ''unmaintained'',
                    ''no longer maintained'', ''obsolete'', ''inactive'']"
  by (simp add: archived_keywords_def THEME_KEYWORDS_def)

lemma archival_hits_pos:
  "(archival_hits input \<ge> 1) = (\<exists>kw \<in> set archived_keywords. str_includes (textContent input) kw)"
proof -
  have "(archival_hits input \<ge> 1) =
        (filter (\<lambda>kw. str_includes (textContent input) kw) archived_keywords \<noteq> [])"
    unfolding archival_hits_def by (cases "filter (\<lambda>kw. str_includes (textContent input) kw) archived_keywords") simp_all
  then show ?thesis by (simp add: filter_empty_conv)
qed

lemma scores_archived:
  "(''archived'', score) \<in> set (scores text) \<Longrightarrow>
   score = length (filter (\<lambda>kw. str_includes text kw) archived_keywords)"
  by (auto simp: scores_def THEME_KEYWORDS_def archived_keywords_def)

lemma bestTheme_in_scores:
  assumes "bestTheme text = Some (th, score)"
  shows "(th, score) \<in> set (scores text) \<and> score > 0"
proof -
  let ?cands = "filter (\<lambda>(theme, score). score > 0) (scores text)"
  let ?sorted = "sort_key (\<lambda>(theme, score). - int score) ?cands"
  from assms obtain rest where "?sorted = (th, score) # rest"
    by (auto simp: bestTheme_def split: list.splits)
  then have "(th, score) \<in> set ?sorted" by simp
  then have "(th, score) \<in> set ?cands" by simp
  then show ?thesis by auto
qed

lemma bestTheme_not_archived:
  assumes "\<not> (\<exists>kw \<in> set archived_keywords. str_includes text kw)"
    and "bestTheme text = Some (th, score)"
  shows "th \<noteq> ''archived''"
proof
  assume "th = ''archived''"
  with bestTheme_in_scores [OF assms(2)]
  have "(''archived'', score) \<in> set (scores text)" and pos: "score > 0" by simp_all
  then have "score = length (filter (\<lambda>kw. str_includes text kw) archived_keywords)"
    by (simp add: scores_archived)
  moreover have "filter (\<lambda>kw. str_includes text kw) archived_keywords = []"
    using assms(1) by (simp add: filter_empty_conv)
  ultimately show False using pos by simp
qed

text \<open>
  What the archived check computes: \<open>suggestTheme\<close> returns \<open>archived\<close> exactly when the
  remote URL contains \<open>archived\<close> or \<open>deprecated\<close>, or when at least one archival keyword
  occurs in the lowercased readme and description text.
\<close>

lemma suggestTheme_archived_iff:
  "suggestTheme input = ''archived'' \<longleftrightarrow>
     url_includes (remoteUrl input) ''archived'' \<or>
     url_includes (remoteUrl input) ''deprecated'' \<or>
     archival_hits input \<ge> 1"
proof (cases "url_includes (remoteUrl input) ''archived'' \<or>
     url_includes (remoteUrl input) ''deprecated'' \<or>
     (\<exists>kw \<in> set archived_keywords. str_includes (textContent input) kw)")
  case True
  then have "suggestTheme input = ''archived''"
    by (simp add: suggestTheme_def Let_def)
  then show ?thesis using True archival_hits_pos [of input] by blast
next
  case False
  then have none: "\<not> (\<exists>kw \<in> set archived_keywords. str_includes (textContent input) kw)"
    by blast
  have best: "\<And>th score. bestTheme (textContent input) = Some (th, score) \<Longrightarrow> th \<noteq> ''archived''"
    using bestTheme_not_archived [OF none] by blast
  have "suggestTheme input \<noteq> ''archived''"
    using False best
    by (auto simp: suggestTheme_def Let_def split: option.splits prod.splits if_splits)
  then show ?thesis using False archival_hits_pos [of input] by blast
qed

text \<open>
  C6. A single archival keyword with no URL signal must not produce \<open>archived\<close>: the
  keyword table's own scoring asks for two hits, and so do the repository's tests of the
  readme detection. The archived check that runs first accepts one hit. A readme with
  the single keyword \<open>old\<close> and no URL signal is classified \<open>archived\<close>, and so is a readme
  in which \<open>old\<close> occurs only inside the word \<open>folder\<close>.
\<close>

theorem suggestTheme_one_archival_keyword:
  "suggestTheme one_keyword_input = ''archived'' \<and>
   \<not> url_includes (remoteUrl one_keyword_input) ''archived'' \<and>
   \<not> url_includes (remoteUrl one_keyword_input) ''deprecated'' \<and>
   archival_hits one_keyword_input = 1 \<and>
   suggestTheme folder_input = ''archived'' \<and>
   archival_hits folder_input = 1"
  by code_simp

section \<open>Properties of the scan upsert\<close>

lemma length_update_first [simp]: "length (update_first i f db) = length db"
  by (induction db) auto

lemma update_first_nth:
  "k < length db \<Longrightarrow>
   update_first i f db ! k = db ! k \<or>
   (find (\<lambda>r. repo_id r = i) db = Some (db ! k) \<and> update_first i f db ! k = f (db ! k))"
proof (induction db arbitrary: k)
  case Nil
  then show ?case by simp
next
  case (Cons r rs)
  show ?case
  proof (cases k)
    case 0
    then show ?thesis by simp
  next
    case (Suc j)
    then show ?thesis using Cons.IH [of j] Cons.prems by auto
  qed
qed

lemma refreshed_refl: "refreshed r r"
  by (simp add: refreshed_def)

lemma refreshed_trans: "refreshed a b \<Longrightarrow> refreshed b c \<Longrightarrow> refreshed a c"
  by (cases a, cases b, cases c) (simp add: refreshed_def)

lemma refreshed_theme: "refreshed a b \<Longrightarrow> theme b = theme a"
  by (cases a, cases b) (simp add: refreshed_def)

lemma refreshed_agree: "refreshed a b \<Longrightarrow> path_status_agree b = path_status_agree a"
  by (cases a, cases b) (simp add: refreshed_def path_status_agree_def)

text \<open>One round of the scan loop on a row that has a theme.\<close>

lemma upsert_result_rows:
  assumes "upsert_result pathMap result st = Inr st'"
    and "k < length (rows st)"
  shows "k < length (rows st') \<and>
         (truthy (theme (rows st ! k)) \<longrightarrow> refreshed (rows st ! k) (rows st' ! k))"
proof (cases "pathMap (toLowerCase (normalizeWindowsPath (sr_path result))) \<noteq> None \<and>
              pathMap (toLowerCase (normalizeWindowsPath (sr_path result))) \<noteq> Some 0")
  case False
  then have "rows st' = rows st @ [last (rows st')]"
    using assms(1) by (auto simp: upsert_result_def Let_def create_row_def)
  then show ?thesis using assms(2)
    by (metis length_append less_imp_le_nat nth_append refreshed_refl trans_less_add1)
next
  case True
  then obtain i where i: "pathMap (toLowerCase (normalizeWindowsPath (sr_path result))) = Some i"
    by auto
  let ?setTheme = "(case findUnique (rows st) i of None \<Rightarrow> False
                            | Some e \<Rightarrow> \<not> truthy (theme e) \<and> truthy (suggestedTheme result))"
  let ?f = "\<lambda>r. (if ?setTheme then r\<lparr>theme := suggestedTheme result\<rparr> else r)
                              \<lparr>repo_remoteUrl := sr_remoteUrl result,
                               lastCommitSha := sr_lastCommitSha result,
                               isDirty := sr_isDirty result\<rparr>"
  from assms(1) True i have rows': "rows st' = update_first i ?f (rows st)"
    by (auto simp: upsert_result_def Let_def update_row_def split: option.splits sum.splits)
  have len: "k < length (rows st')" using rows' assms(2) by simp
  have "truthy (theme (rows st ! k)) \<longrightarrow> refreshed (rows st ! k) (rows st' ! k)"
  proof
    assume th: "truthy (theme (rows st ! k))"
    from update_first_nth [OF assms(2), of i ?f]
    show "refreshed (rows st ! k) (rows st' ! k)"
    proof
      assume "update_first i ?f (rows st) ! k = rows st ! k"
      then show ?thesis using rows' by (simp add: refreshed_refl)
    next
      assume hit: "find (\<lambda>r. repo_id r = i) (rows st) = Some (rows st ! k) \<and>
                   update_first i ?f (rows st) ! k = ?f (rows st ! k)"
      then have "\<not> ?setTheme" using th by (simp add: findUnique_def)
      then have "rows st' ! k = (rows st ! k)\<lparr>repo_remoteUrl := sr_remoteUrl result,
                               lastCommitSha := sr_lastCommitSha result,
                               isDirty := sr_isDirty result\<rparr>"
        using hit rows' by simp
      then show ?thesis by (simp add: refreshed_def)
    qed
  qed
  with len show ?thesis by blast
qed

lemma upsert_all_rows:
  assumes "upsert_all pathMap rs st = (st', err)"
    and "k < length (rows st)" and "truthy (theme (rows st ! k))"
  shows "k < length (rows st') \<and> refreshed (rows st ! k) (rows st' ! k)"
  using assms
proof (induction rs arbitrary: st)
  case Nil
  then show ?case by (simp add: refreshed_refl)
next
  case (Cons result rest)
  show ?case
  proof (cases "upsert_result pathMap result st")
    case (Inl e)
    with Cons.prems show ?thesis by (simp add: refreshed_refl)
  next
    case (Inr st1)
    from upsert_result_rows [OF Inr Cons.prems(2)] Cons.prems(3)
    have k1: "k < length (rows st1)" and r1: "refreshed (rows st ! k) (rows st1 ! k)" by simp_all
    have th1: "truthy (theme (rows st1 ! k))" using r1 Cons.prems(3) by (simp add: refreshed_theme)
    from Cons.prems(1) Inr have "upsert_all pathMap rest st1 = (st', err)" by simp
    from Cons.IH [OF this k1 th1] r1 show ?thesis by (blast intro: refreshed_trans)
  qed
qed

subsection \<open>No reachable store holds an empty theme\<close>

lemma set_update_first: "set (update_first i f db) \<subseteq> set db \<union> f ` set db"
  by (induction db) auto

lemma update_first_keeps:
  assumes "\<forall>r \<in> set db. P r" and "\<And>r. P r \<Longrightarrow> P (f r)"
  shows "\<forall>r \<in> set (update_first i f db). P r"
  using set_update_first [of i f db] assms by auto

lemma upsert_result_themes:
  assumes "upsert_result pathMap result st = Inr st'"
    and "\<forall>r \<in> set (rows st). theme r \<noteq> Some []"
  shows "\<forall>r \<in> set (rows st'). theme r \<noteq> Some []"
proof (cases "pathMap (toLowerCase (normalizeWindowsPath (sr_path result))) \<noteq> None \<and>
              pathMap (toLowerCase (normalizeWindowsPath (sr_path result))) \<noteq> Some 0")
  case False
  with assms(1) obtain r where "rows st' = rows st @ [r]" and "theme r \<noteq> Some []"
    by (auto simp: upsert_result_def Let_def create_row_def truthy_def split: option.splits)
  then show ?thesis using assms(2) by auto
next
  case True
  then obtain i where i: "pathMap (toLowerCase (normalizeWindowsPath (sr_path result))) = Some i"
    by auto
  from assms(1) True i obtain f where rows': "rows st' = update_first i f (rows st)"
    and f: "\<And>r. theme r \<noteq> Some [] \<Longrightarrow> theme (f r) \<noteq> Some []"
    by (auto simp: upsert_result_def Let_def update_row_def truthy_def
             split: option.splits sum.splits)
  show ?thesis unfolding rows' using assms(2) f by (rule update_first_keeps)
qed

lemma upsert_all_themes:
  assumes "\<forall>r \<in> set (rows st). theme r \<noteq> Some []"
  shows "\<forall>r \<in> set (rows (fst (upsert_all pathMap rs st))). theme r \<noteq> Some []"
  using assms
proof (induction rs arbitrary: st)
  case Nil
  then show ?case by simp
next
  case (Cons result rest)
  show ?case
  proof (cases "upsert_result pathMap result st")
    case (Inl e)
    with Cons.prems show ?thesis by simp
  next
    case (Inr st1)
    from upsert_result_themes [OF Inr Cons.prems]
    have "\<forall>r \<in> set (rows (fst (upsert_all pathMap rest st1))). theme r \<noteq> Some []"
      by (rule Cons.IH)
    with Inr show ?thesis by simp
  qed
qed

lemma assignTheme_themes:
  assumes "\<forall>r \<in> set db. theme r \<noteq> Some []"
  shows "\<forall>r \<in> set (fst (assignTheme issueMessage db repoId th)). theme r \<noteq> Some []"
proof (cases "repoId > 0 \<and> length th \<ge> 1")
  case False
  then show ?thesis using assms by (simp add: assignTheme_def)
next
  case True
  let ?f = "\<lambda>r. r\<lparr>theme := Some th, triageStatus := Manual\<rparr>"
  have "fst (assignTheme issueMessage db repoId th) = db \<or>
        fst (assignTheme issueMessage db repoId th) = update_first repoId ?f db"
    by (auto simp: assignTheme_def update_row_def split: option.splits sum.splits error.splits)
  moreover have "th \<noteq> []" using True by auto
  then have "\<forall>r \<in> set (update_first repoId ?f db). theme r \<noteq> Some []"
    using set_update_first [of repoId ?f db] assms by auto
  ultimately show ?thesis using assms by auto
qed

lemma bulkAssignTheme_themes:
  assumes "\<forall>r \<in> set db. theme r \<noteq> Some []"
  shows "\<forall>r \<in> set (fst (bulkAssignTheme issueMessage db repoIds th)). theme r \<noteq> Some []"
  using assms by (auto simp: bulkAssignTheme_def updateMany_def)

lemma setTriageStatus_themes:
  assumes "\<forall>r \<in> set db. theme r \<noteq> Some []"
  shows "\<forall>r \<in> set (fst (setTriageStatus db repoId status)). theme r \<noteq> Some []"
proof -
  let ?f = "\<lambda>r. r\<lparr>triageStatus := status\<rparr>"
  have "fst (setTriageStatus db repoId status) = db \<or>
        fst (setTriageStatus db repoId status) = update_first repoId ?f db"
    by (auto simp: setTriageStatus_def update_row_def split: option.splits sum.splits error.splits)
  then show ?thesis using update_first_keeps [OF assms, of ?f repoId] assms by auto
qed

lemma refreshRepositoryStatus_themes:
  assumes "\<forall>r \<in> set db. theme r \<noteq> Some []"
  shows "\<forall>r \<in> set (fst (refreshRepositoryStatus db repoId info)). theme r \<noteq> Some []"
proof (cases info)
  case None
  then show ?thesis using assms by (simp add: refreshRepositoryStatus_def split: option.splits)
next
  case (Some i)
  let ?f = "\<lambda>r. r\<lparr>lastCommitSha := info_lastCommitSha i, isDirty := info_isDirty i,
                               repo_remoteUrl := info_remoteUrl i\<rparr>"
  have "fst (refreshRepositoryStatus db repoId info) = db \<or>
        fst (refreshRepositoryStatus db repoId info) = update_first repoId ?f db"
    using Some
    by (auto simp: refreshRepositoryStatus_def update_row_def split: option.splits sum.splits)
  then show ?thesis using update_first_keeps [OF assms, of ?f repoId] assms by auto
qed

lemma deleteRepositoryRecord_themes:
  assumes "\<forall>r \<in> set db. theme r \<noteq> Some []"
  shows "\<forall>r \<in> set (fst (deleteRepositoryRecord db repoId)). theme r \<noteq> Some []"
  using assms by (auto simp: deleteRepositoryRecord_def split: option.splits)

lemma record_failure_repos [simp]: "repos (record_failure m msg h st) = repos st"
  by (simp add: record_failure_def)

lemma moveOne_repos:
  "repos (moveOne E options m st) = repos st \<or>
   repos (moveOne E options m st) =
     update_first (mv_repoId m)
       (\<lambda>r. r\<lparr>physicalPath := Some (normalizeWindowsPath (mv_to m)), triageStatus := Auto\<rparr>)
       (repos st)"
  by (auto simp: moveOne_def update_row_def split: prod.splits option.splits sum.splits error.splits)

lemma fold_moveOne_themes:
  assumes "\<forall>r \<in> set (repos st). theme r \<noteq> Some []"
  shows "\<forall>r \<in> set (repos (fold (moveOne E options) ms st)). theme r \<noteq> Some []"
  using assms
proof (induction ms arbitrary: st)
  case Nil
  then show ?case by simp
next
  case (Cons m ms)
  let ?g = "\<lambda>r. r\<lparr>physicalPath := Some (normalizeWindowsPath (mv_to m)), triageStatus := Auto\<rparr>"
  have "\<forall>r \<in> set (repos (moveOne E options m st)). theme r \<noteq> Some []"
    using moveOne_repos [of E options m st]
      update_first_keeps [OF Cons.prems, of ?g "mv_repoId m"] Cons.prems by auto
  then show ?case by (simp add: Cons.IH)
qed

lemma executeMoves_themes:
  assumes "\<forall>r \<in> set db. theme r \<noteq> Some []"
  shows "\<forall>r \<in> set (snd (fst (executeMoves E options moves h db))). theme r \<noteq> Some []"
  using fold_moveOne_themes [of "\<lparr>trace = h, repos = db, results = [], successful = 0, failed = 0\<rparr>"
      E options "validMoves moves"] assms
  by (simp add: executeMoves_def Let_def)

lemma reachable_themes: "reachable db \<Longrightarrow> \<forall>r \<in> set db. theme r \<noteq> Some []"
proof (induction rule: reachable.induct)
  case reachable_empty
  show ?case by simp
next
  case (reachable_scan db scanResults)
  then show ?case unfolding scan_upsert_def by (intro upsert_all_themes) simp
next
  case (reachable_assign db issueMessage repoId th)
  then show ?case by (intro assignTheme_themes)
next
  case (reachable_bulk db issueMessage repoIds th)
  then show ?case by (intro bulkAssignTheme_themes)
next
  case (reachable_status db repoId status)
  then show ?case by (intro setTriageStatus_themes)
next
  case (reachable_refresh db repoId info)
  then show ?case by (intro refreshRepositoryStatus_themes)
next
  case (reachable_delete db repoId)
  then show ?case by (intro deleteRepositoryRecord_themes)
next
  case (reachable_moves db E options moves h)
  then show ?case by (intro executeMoves_themes)
qed

text \<open>
  C5. In every store the application can reach, a row that already has a theme (its theme
  is not \<open>null\<close>) keeps that theme through a scan, whatever the scan results suggest, also
  when the scan stops on an error; the scan changes such a row in the volatile fields
  (remote URL, last commit sha, dirty flag) only. So a suggested theme is written to an
  existing row only when its theme is unset.
\<close>

theorem scan_keeps_assigned_theme:
  assumes "reachable db" and "scan_upsert db scanResults = (st, err)"
    and "k < length db" and "theme (db ! k) \<noteq> None"
  shows "k < length (rows st) \<and> theme (rows st ! k) = theme (db ! k) \<and>
         refreshed (db ! k) (rows st ! k)"
proof -
  have "theme (db ! k) \<noteq> Some []"
    using reachable_themes [OF assms(1)] assms(3) by simp
  with assms(4) have "truthy (theme (db ! k))" by (auto simp: truthy_def)
  with assms(2,3) have "k < length (rows st) \<and> refreshed (db ! k) (rows st ! k)"
    using upsert_all_rows [of "existingPathMap db" scanResults
        "\<lparr>rows = db, newRepos = 0, updatedRepos = 0\<rparr>" st err k]
    by (simp add: scan_upsert_def)
  then show ?thesis by (simp add: refreshed_theme)
qed

theorem scan_keeps_assigned_theme_witness:
  "reachable scanned_store \<and> theme (scanned_store ! 0) = Some ''python'' \<and>
   suggestedTheme rescan_result = Some ''nextjs'' \<and>
   updatedRepos (fst (scan_upsert scanned_store [rescan_result])) = 1 \<and>
   theme (rows (fst (scan_upsert scanned_store [rescan_result])) ! 0) = Some ''python'' \<and>
   isDirty (rows (fst (scan_upsert scanned_store [rescan_result])) ! 0)"
proof -
  have reach: "reachable scanned_store"
    unfolding scanned_store_def
    by (intro reachable_assign reachable_scan reachable_empty)
  have len: "0 < length scanned_store" by code_simp
  have th: "theme (scanned_store ! 0) = Some ''python''" by code_simp
  have "theme (rows (fst (scan_upsert scanned_store [rescan_result])) ! 0) =
          theme (scanned_store ! 0)"
    using scan_keeps_assigned_theme [OF reach, of "[rescan_result]"
        "fst (scan_upsert scanned_store [rescan_result])"
        "snd (scan_upsert scanned_store [rescan_result])" 0] len th
    by simp
  moreover have "suggestedTheme rescan_result = Some ''nextjs''" by code_simp
  moreover have "updatedRepos (fst (scan_upsert scanned_store [rescan_result])) = 1" by code_simp
  moreover have "isDirty (rows (fst (scan_upsert scanned_store [rescan_result])) ! 0)"
    by code_simp
  ultimately show ?thesis using reach th by simp
qed

section \<open>The invariant between physical path and triage status\<close>

lemma create_row_agree:
  assumes "physicalPath r = None" and "triageStatus r = Pending"
    and "\<forall>x \<in> set db. path_status_agree x"
  shows "\<forall>x \<in> set (create_row db r). path_status_agree x"
proof -
  have "path_status_agree (r\<lparr>repo_id := next_id db\<rparr>)"
    using assms(1,2) by (simp add: path_status_agree_def)
  then show ?thesis using assms(3) by (auto simp: create_row_def)
qed

lemma upsert_result_agree:
  assumes "upsert_result pathMap result st = Inr st'"
    and "\<forall>r \<in> set (rows st). path_status_agree r"
  shows "\<forall>r \<in> set (rows st'). path_status_agree r"
proof (cases "pathMap (toLowerCase (normalizeWindowsPath (sr_path result))) \<noteq> None \<and>
              pathMap (toLowerCase (normalizeWindowsPath (sr_path result))) \<noteq> Some 0")
  case False
  with assms(1) obtain r where "rows st' = create_row (rows st) r"
    and "physicalPath r = None" and "triageStatus r = Pending"
    by (auto simp: upsert_result_def Let_def)
  then show ?thesis using create_row_agree assms(2) by simp
next
  case True
  then obtain i where i: "pathMap (toLowerCase (normalizeWindowsPath (sr_path result))) = Some i"
    by auto
  from assms(1) True i obtain f where rows': "rows st' = update_first i f (rows st)"
    and f: "\<And>r. path_status_agree (f r) = path_status_agree r"
    by (auto simp: upsert_result_def Let_def update_row_def path_status_agree_def
             split: option.splits sum.splits)
  show ?thesis using set_update_first [of i f "rows st"] rows' f assms(2) by auto
qed

lemma upsert_all_agree:
  assumes "\<forall>r \<in> set (rows st). path_status_agree r"
  shows "\<forall>r \<in> set (rows (fst (upsert_all pathMap rs st))). path_status_agree r"
  using assms
proof (induction rs arbitrary: st)
  case Nil
  then show ?case by simp
next
  case (Cons result rest)
  show ?case
  proof (cases "upsert_result pathMap result st")
    case (Inl e)
    with Cons.prems show ?thesis by simp
  next
    case (Inr st1)
    from upsert_result_agree [OF Inr Cons.prems]
    have "\<forall>r \<in> set (rows (fst (upsert_all pathMap rest st1))). path_status_agree r"
      by (rule Cons.IH)
    with Inr show ?thesis by simp
  qed
qed

lemma moveOne_agree:
  assumes "\<forall>r \<in> set (repos st). path_status_agree r"
  shows "\<forall>r \<in> set (repos (moveOne E options m st)). path_status_agree r"
proof -
  let ?g = "\<lambda>r. r\<lparr>physicalPath := Some (normalizeWindowsPath (mv_to m)), triageStatus := Auto\<rparr>"
  have "\<And>r. path_status_agree (?g r)" by (simp add: path_status_agree_def)
  then show ?thesis
    using moveOne_repos [of E options m st] set_update_first [of "mv_repoId m" ?g "repos st"] assms
    by auto
qed

lemma fold_moveOne_agree:
  assumes "\<forall>r \<in> set (repos st). path_status_agree r"
  shows "\<forall>r \<in> set (repos (fold (moveOne E options) ms st)). path_status_agree r"
  using assms
proof (induction ms arbitrary: st)
  case Nil
  then show ?case by simp
next
  case (Cons m ms)
  from moveOne_agree [OF Cons.prems, of E options m]
  show ?case by (simp add: Cons.IH)
qed

lemma update_first_hit:
  "findUnique db i = Some r \<Longrightarrow>
   \<exists>k < length db. db ! k = r \<and> update_first i f db ! k = f r"
proof (induction db)
  case Nil
  then show ?case by (simp add: findUnique_def)
next
  case (Cons x xs)
  show ?case
  proof (cases "repo_id x = i")
    case True
    with Cons.prems have "x = r" by (simp add: findUnique_def)
    with True show ?thesis by (intro exI [of _ 0]) simp
  next
    case False
    with Cons.prems have "findUnique xs i = Some r" by (simp add: findUnique_def)
    from Cons.IH [OF this] obtain k where "k < length xs" "xs ! k = r"
      "update_first i f xs ! k = f r" by blast
    with False show ?thesis by (intro exI [of _ "Suc k"]) simp
  qed
qed

text \<open>
  What a single-row write does to the table: it keeps the number of rows, leaves every
  row but the addressed one as it was, and when it reports success the addressed row has
  been rewritten.
\<close>

lemma assignTheme_rows:
  "length (fst (assignTheme issueMessage db repoId th)) = length db \<and>
   (\<forall>k < length db.
      fst (assignTheme issueMessage db repoId th) ! k = db ! k \<or>
      findUnique db repoId = Some (db ! k) \<and>
      fst (assignTheme issueMessage db repoId th) ! k =
        (db ! k)\<lparr>theme := Some th, triageStatus := Manual\<rparr>) \<and>
   (\<forall>msg. snd (assignTheme issueMessage db repoId th) = Success () msg \<longrightarrow>
      (\<exists>k < length db. findUnique db repoId = Some (db ! k) \<and>
         fst (assignTheme issueMessage db repoId th) ! k =
           (db ! k)\<lparr>theme := Some th, triageStatus := Manual\<rparr>))"
proof (cases "repoId > 0 \<and> length th \<ge> 1")
  case False
  then show ?thesis by (simp add: assignTheme_def)
next
  case True
  show ?thesis
  proof (cases "findUnique db repoId")
    case None
    with True show ?thesis by (simp add: assignTheme_def)
  next
    case (Some r)
    let ?f = "\<lambda>r. r\<lparr>theme := Some th, triageStatus := Manual\<rparr>"
    from True Some have fst_eq: "fst (assignTheme issueMessage db repoId th) = update_first repoId ?f db"
      by (simp add: assignTheme_def update_row_def)
    have each: "\<forall>k < length db. update_first repoId ?f db ! k = db ! k \<or>
        findUnique db repoId = Some (db ! k) \<and> update_first repoId ?f db ! k = ?f (db ! k)"
      using update_first_nth [of _ db repoId ?f] by (simp add: findUnique_def)
    have hit: "\<exists>k < length db. findUnique db repoId = Some (db ! k) \<and>
        update_first repoId ?f db ! k = ?f (db ! k)"
      using update_first_hit [OF Some, of ?f] Some by auto
    show ?thesis unfolding fst_eq using each hit by simp
  qed
qed

lemma setTriageStatus_rows:
  "length (fst (setTriageStatus db repoId status)) = length db \<and>
   (\<forall>k < length db.
      fst (setTriageStatus db repoId status) ! k = db ! k \<or>
      findUnique db repoId = Some (db ! k) \<and>
      fst (setTriageStatus db repoId status) ! k = (db ! k)\<lparr>triageStatus := status\<rparr>) \<and>
   (\<forall>msg. snd (setTriageStatus db repoId status) = Success () msg \<longrightarrow>
      (\<exists>k < length db. findUnique db repoId = Some (db ! k) \<and>
         fst (setTriageStatus db repoId status) ! k = (db ! k)\<lparr>triageStatus := status\<rparr>))"
proof (cases "findUnique db repoId")
  case None
  then show ?thesis by (simp add: setTriageStatus_def)
next
  case (Some r)
  let ?f = "\<lambda>r. r\<lparr>triageStatus := status\<rparr>"
  from Some have fst_eq: "fst (setTriageStatus db repoId status) = update_first repoId ?f db"
    by (simp add: setTriageStatus_def update_row_def)
  have each: "\<forall>k < length db. update_first repoId ?f db ! k = db ! k \<or>
      findUnique db repoId = Some (db ! k) \<and> update_first repoId ?f db ! k = ?f (db ! k)"
    using update_first_nth [of _ db repoId ?f] by (simp add: findUnique_def)
  have hit: "\<exists>k < length db. findUnique db repoId = Some (db ! k) \<and>
      update_first repoId ?f db ! k = ?f (db ! k)"
    using update_first_hit [OF Some, of ?f] Some by auto
  show ?thesis unfolding fst_eq using each hit by simp
qed

lemma written_row:
  assumes "path_status_agree r" and "x = r \<or> c \<and> x = f r"
    and "physicalPath (f r) = physicalPath r" and "path_status_agree (f r) \<longleftrightarrow> Q"
    and "f r = r \<longrightarrow> Q"
  shows "physicalPath x = physicalPath r \<and> (x = r \<or> c \<and> x = f r) \<and>
         (path_status_agree x \<longleftrightarrow> x = r \<or> Q)"
  using assms by metis

text \<open>
  C4, as the code has it. When every row of the store satisfies the invariant, every row
  satisfies it after a scan upsert and after a move execution. \<open>assignTheme\<close> and
  \<open>setTriageStatus\<close> keep the number of rows, leave every row but the addressed one as it
  was and, when they succeed, rewrite the addressed row: they write its status (and
  theme) and leave its physical path unchanged. So after \<open>assignTheme\<close> a row satisfies the
  invariant exactly when it was not changed or has no physical path, and after
  \<open>setTriageStatus\<close> exactly when it was not changed or has a physical path exactly when
  the new status is \<open>auto\<close>.
\<close>

theorem invariant_kept_by_scan_and_move:
  assumes "\<forall>r \<in> set db. path_status_agree r"
  shows "(\<forall>r \<in> set (rows (fst (scan_upsert db scanResults))). path_status_agree r) \<and>
         (\<forall>r \<in> set (snd (fst (executeMoves E options moves h db))). path_status_agree r) \<and>
         length (fst (assignTheme issueMessage db repoId th)) = length db \<and>
         (\<forall>k < length db.
            physicalPath (fst (assignTheme issueMessage db repoId th) ! k) = physicalPath (db ! k) \<and>
            (fst (assignTheme issueMessage db repoId th) ! k = db ! k \<or>
             findUnique db repoId = Some (db ! k) \<and>
             fst (assignTheme issueMessage db repoId th) ! k =
               (db ! k)\<lparr>theme := Some th, triageStatus := Manual\<rparr>) \<and>
            (path_status_agree (fst (assignTheme issueMessage db repoId th) ! k) \<longleftrightarrow>
               fst (assignTheme issueMessage db repoId th) ! k = db ! k \<or>
               physicalPath (db ! k) = None)) \<and>
         (\<forall>msg. snd (assignTheme issueMessage db repoId th) = Success () msg \<longrightarrow>
            (\<exists>k < length db. findUnique db repoId = Some (db ! k) \<and>
               fst (assignTheme issueMessage db repoId th) ! k =
                 (db ! k)\<lparr>theme := Some th, triageStatus := Manual\<rparr>)) \<and>
         length (fst (setTriageStatus db repoId status)) = length db \<and>
         (\<forall>k < length db.
            physicalPath (fst (setTriageStatus db repoId status) ! k) = physicalPath (db ! k) \<and>
            (fst (setTriageStatus db repoId status) ! k = db ! k \<or>
             findUnique db repoId = Some (db ! k) \<and>
             fst (setTriageStatus db repoId status) ! k = (db ! k)\<lparr>triageStatus := status\<rparr>) \<and>
            (path_status_agree (fst (setTriageStatus db repoId status) ! k) \<longleftrightarrow>
               fst (setTriageStatus db repoId status) ! k = db ! k \<or>
               (physicalPath (db ! k) \<noteq> None) = (status = Auto))) \<and>
         (\<forall>msg. snd (setTriageStatus db repoId status) = Success () msg \<longrightarrow>
            (\<exists>k < length db. findUnique db repoId = Some (db ! k) \<and>
               fst (setTriageStatus db repoId status) ! k = (db ! k)\<lparr>triageStatus := status\<rparr>))"
proof -
  have scan: "\<forall>r \<in> set (rows (fst (scan_upsert db scanResults))). path_status_agree r"
    unfolding scan_upsert_def by (rule upsert_all_agree) (simp add: assms)
  have move: "\<forall>r \<in> set (snd (fst (executeMoves E options moves h db))). path_status_agree r"
    using fold_moveOne_agree [of "\<lparr>trace = h, repos = db, results = [], successful = 0, failed = 0\<rparr>"
        E options "validMoves moves"] assms
    by (simp add: executeMoves_def Let_def)
  note a = assignTheme_rows [of issueMessage db repoId th]
  note s = setTriageStatus_rows [of db repoId status]
  have agree: "\<And>k. k < length db \<Longrightarrow> path_status_agree (db ! k)" using assms by simp
  have a_each: "\<forall>k < length db.
            physicalPath (fst (assignTheme issueMessage db repoId th) ! k) = physicalPath (db ! k) \<and>
            (fst (assignTheme issueMessage db repoId th) ! k = db ! k \<or>
             findUnique db repoId = Some (db ! k) \<and>
             fst (assignTheme issueMessage db repoId th) ! k =
               (db ! k)\<lparr>theme := Some th, triageStatus := Manual\<rparr>) \<and>
            (path_status_agree (fst (assignTheme issueMessage db repoId th) ! k) \<longleftrightarrow>
               fst (assignTheme issueMessage db repoId th) ! k = db ! k \<or>
               physicalPath (db ! k) = None)"
  proof (intro allI impI)
    fix k assume k: "k < length db"
    let ?f = "\<lambda>r. r\<lparr>theme := Some th, triageStatus := Manual\<rparr>"
    have fixed: "?f (db ! k) = db ! k \<longrightarrow> physicalPath (db ! k) = None"
    proof
      assume "?f (db ! k) = db ! k"
      then have "triageStatus (?f (db ! k)) = triageStatus (db ! k)" by (rule arg_cong)
      then have "triageStatus (db ! k) = Manual" by simp
      with agree [OF k] show "physicalPath (db ! k) = None"
        by (simp add: path_status_agree_def)
    qed
    show "physicalPath (fst (assignTheme issueMessage db repoId th) ! k) = physicalPath (db ! k) \<and>
            (fst (assignTheme issueMessage db repoId th) ! k = db ! k \<or>
             findUnique db repoId = Some (db ! k) \<and>
             fst (assignTheme issueMessage db repoId th) ! k = ?f (db ! k)) \<and>
            (path_status_agree (fst (assignTheme issueMessage db repoId th) ! k) \<longleftrightarrow>
               fst (assignTheme issueMessage db repoId th) ! k = db ! k \<or>
               physicalPath (db ! k) = None)"
      by (intro written_row [where f = ?f] agree [OF k]
            a [THEN conjunct2, THEN conjunct1, rule_format, OF k] fixed)
         (simp_all add: path_status_agree_def)
  qed
  have s_each: "\<forall>k < length db.
            physicalPath (fst (setTriageStatus db repoId status) ! k) = physicalPath (db ! k) \<and>
            (fst (setTriageStatus db repoId status) ! k = db ! k \<or>
             findUnique db repoId = Some (db ! k) \<and>
             fst (setTriageStatus db repoId status) ! k = (db ! k)\<lparr>triageStatus := status\<rparr>) \<and>
            (path_status_agree (fst (setTriageStatus db repoId status) ! k) \<longleftrightarrow>
               fst (setTriageStatus db repoId status) ! k = db ! k \<or>
               (physicalPath (db ! k) \<noteq> None) = (status = Auto))"
  proof (intro allI impI)
    fix k assume k: "k < length db"
    let ?f = "\<lambda>r. r\<lparr>triageStatus := status\<rparr>"
    have fixed: "?f (db ! k) = db ! k \<longrightarrow> (physicalPath (db ! k) \<noteq> None) = (status = Auto)"
    proof
      assume "?f (db ! k) = db ! k"
      then have "triageStatus (?f (db ! k)) = triageStatus (db ! k)" by (rule arg_cong)
      then have "triageStatus (db ! k) = status" by simp
      with agree [OF k] show "(physicalPath (db ! k) \<noteq> None) = (status = Auto)"
        by (simp add: path_status_agree_def)
    qed
    show "physicalPath (fst (setTriageStatus db repoId status) ! k) = physicalPath (db ! k) \<and>
            (fst (setTriageStatus db repoId status) ! k = db ! k \<or>
             findUnique db repoId = Some (db ! k) \<and>
             fst (setTriageStatus db repoId status) ! k = ?f (db ! k)) \<and>
            (path_status_agree (fst (setTriageStatus db repoId status) ! k) \<longleftrightarrow>
               fst (setTriageStatus db repoId status) ! k = db ! k \<or>
               (physicalPath (db ! k) \<noteq> None) = (status = Auto))"
      by (intro written_row [where f = ?f] agree [OF k]
            s [THEN conjunct2, THEN conjunct1, rule_format, OF k] fixed)
         (simp_all add: path_status_agree_def)
  qed
  have a_len: "length (fst (assignTheme issueMessage db repoId th)) = length db"
    by (rule a [THEN conjunct1])
  have a_done: "\<forall>msg. snd (assignTheme issueMessage db repoId th) = Success () msg \<longrightarrow>
            (\<exists>k < length db. findUnique db repoId = Some (db ! k) \<and>
               fst (assignTheme issueMessage db repoId th) ! k =
                 (db ! k)\<lparr>theme := Some th, triageStatus := Manual\<rparr>)"
    by (rule a [THEN conjunct2, THEN conjunct2])
  have s_len: "length (fst (setTriageStatus db repoId status)) = length db"
    by (rule s [THEN conjunct1])
  have s_done: "\<forall>msg. snd (setTriageStatus db repoId status) = Success () msg \<longrightarrow>
            (\<exists>k < length db. findUnique db repoId = Some (db ! k) \<and>
               fst (setTriageStatus db repoId status) ! k = (db ! k)\<lparr>triageStatus := status\<rparr>)"
    by (rule s [THEN conjunct2, THEN conjunct2])
  show ?thesis
    by (intro conjI) (rule scan move a_len a_each a_done s_len s_each s_done)+
qed

theorem invariant_kept_by_scan_and_move_witness:
  "path_status_agree organized_repo \<and> path_status_agree unthemed_repo \<and>
   path_status_agree (rows (fst (scan_upsert [themed_repo] [rescan_result])) ! 0) \<and>
   path_status_agree
     (snd (fst (executeMoves example_env DEFAULT_MOVE_OPTIONS [example_move] [] [themed_repo])) ! 0) \<and>
   triageStatus
     (snd (fst (executeMoves example_env DEFAULT_MOVE_OPTIONS [example_move] [] [themed_repo])) ! 0)
     = Auto \<and>
   physicalPath (fst (assignTheme None [organized_repo, unthemed_repo] 1 ''nextjs'') ! 0) =
     Some ''C:/org/python/app'' \<and>
   triageStatus (fst (assignTheme None [organized_repo, unthemed_repo] 1 ''nextjs'') ! 0) = Manual \<and>
   fst (assignTheme None [organized_repo, unthemed_repo] 1 ''nextjs'') ! 1 = unthemed_repo \<and>
   path_status_agree (fst (assignTheme None [organized_repo, unthemed_repo] 2 ''nextjs'') ! 1) \<and>
   physicalPath (fst (setTriageStatus [organized_repo, unthemed_repo] 1 Ignored) ! 0) =
     Some ''C:/org/python/app'' \<and>
   path_status_agree (fst (setTriageStatus [organized_repo, unthemed_repo] 2 Ignored) ! 1)"
proof -
  let ?db = "[organized_repo, unthemed_repo]"
  have a1: "path_status_agree organized_repo" and a2: "path_status_agree unthemed_repo"
    and a0: "path_status_agree themed_repo" by code_simp+
  have hyp1: "\<forall>r \<in> set [themed_repo]. path_status_agree r" using a0 by simp
  have hyp2: "\<forall>r \<in> set ?db. path_status_agree r" using a1 a2 by simp
  note kept1 = invariant_kept_by_scan_and_move [OF hyp1, where scanResults = "[rescan_result]"
      and E = example_env and options = DEFAULT_MOVE_OPTIONS and moves = "[example_move]"
      and h = "[]" and issueMessage = None and repoId = 1 and th = "''nextjs''"
      and status = Ignored]
  note kept_a1 = invariant_kept_by_scan_and_move [OF hyp2, where scanResults = "[]"
      and E = example_env and options = DEFAULT_MOVE_OPTIONS and moves = "[]"
      and h = "[]" and issueMessage = None and repoId = 1 and th = "''nextjs''"
      and status = Ignored]
  note kept_a2 = invariant_kept_by_scan_and_move [OF hyp2, where scanResults = "[]"
      and E = example_env and options = DEFAULT_MOVE_OPTIONS and moves = "[]"
      and h = "[]" and issueMessage = None and repoId = 2 and th = "''nextjs''"
      and status = Ignored]
  have l1: "rows (fst (scan_upsert [themed_repo] [rescan_result])) ! 0
              \<in> set (rows (fst (scan_upsert [themed_repo] [rescan_result])))"
    by code_simp
  have l2: "snd (fst (executeMoves example_env DEFAULT_MOVE_OPTIONS [example_move] []
                [themed_repo])) ! 0
              \<in> set (snd (fst (executeMoves example_env DEFAULT_MOVE_OPTIONS [example_move] []
                [themed_repo])))"
    by code_simp
  have s1: "path_status_agree (rows (fst (scan_upsert [themed_repo] [rescan_result])) ! 0)"
    by (rule kept1 [THEN conjunct1, rule_format, OF l1])
  have s2: "path_status_agree (snd (fst (executeMoves example_env DEFAULT_MOVE_OPTIONS
      [example_move] [] [themed_repo])) ! 0)"
    by (rule kept1 [THEN conjunct2, THEN conjunct1, rule_format, OF l2])
  have auto: "triageStatus (snd (fst (executeMoves example_env DEFAULT_MOVE_OPTIONS [example_move]
      [] [themed_repo])) ! 0) = Auto" by code_simp
  have pp0: "physicalPath (?db ! 0) = Some ''C:/org/python/app''" by code_simp
  have pp1: "physicalPath (?db ! 1) = None" by code_simp
  have len0: "(0::nat) < length ?db" and len1: "(1::nat) < length ?db" by simp_all
  note assign_1 = kept_a1 [THEN conjunct2, THEN conjunct2, THEN conjunct2, THEN conjunct1,
      rule_format]
  note assign_2 = kept_a2 [THEN conjunct2, THEN conjunct2, THEN conjunct2, THEN conjunct1,
      rule_format]
  note status_1 = kept_a1 [THEN conjunct2, THEN conjunct2, THEN conjunct2, THEN conjunct2,
      THEN conjunct2, THEN conjunct2, THEN conjunct1, rule_format]
  note status_2 = kept_a2 [THEN conjunct2, THEN conjunct2, THEN conjunct2, THEN conjunct2,
      THEN conjunct2, THEN conjunct2, THEN conjunct1, rule_format]
  have p0: "physicalPath (fst (assignTheme None ?db 1 ''nextjs'') ! 0) = Some ''C:/org/python/app''"
    by (rule trans [OF assign_1 [OF len0, THEN conjunct1] pp0])
  have t0: "triageStatus (fst (assignTheme None ?db 1 ''nextjs'') ! 0) = Manual" by code_simp
  have u1: "fst (assignTheme None ?db 1 ''nextjs'') ! 1 = unthemed_repo" by code_simp
  have g1: "path_status_agree (fst (assignTheme None ?db 2 ''nextjs'') ! 1)"
    by (rule assign_2 [OF len1, THEN conjunct2, THEN conjunct2, THEN iffD2, OF disjI2, OF pp1])
  have q0: "physicalPath (fst (setTriageStatus ?db 1 Ignored) ! 0) = Some ''C:/org/python/app''"
    by (rule trans [OF status_1 [OF len0, THEN conjunct1] pp0])
  have ne: "(physicalPath (?db ! 1) \<noteq> None) = (Ignored = Auto)" by code_simp
  have g2: "path_status_agree (fst (setTriageStatus ?db 2 Ignored) ! 1)"
    by (rule status_2 [OF len1, THEN conjunct2, THEN conjunct2, THEN iffD2, OF disjI2, OF ne])
  show ?thesis
    by (intro conjI) (rule a1 a2 s1 s2 auto p0 t0 u1 g1 q0 g2)+
qed

text \<open>
  C4, as the specification states it, covers theme assignment and triage-status change.
  Assigning a theme to a moved repository, or ignoring it, leaves a physical path on a row
  that is no longer \<open>auto\<close>; setting the status \<open>auto\<close> by hand gives an \<open>auto\<close> row
  without one.
\<close>

theorem assignTheme_breaks_invariant_counterexample:
  "path_status_agree organized_repo \<and>
   \<not> path_status_agree (fst (assignTheme None [organized_repo] 1 ''nextjs'') ! 0) \<and>
   \<not> path_status_agree (fst (ignoreRepository [organized_repo] 1) ! 0) \<and>
   path_status_agree themed_repo \<and>
   \<not> path_status_agree (fst (setTriageStatus [themed_repo] 1 Auto) ! 0)"
  by code_simp

section \<open>Properties of the move executor\<close>

subsection \<open>Per-entry results\<close>

lemma moveOne_step:
  "\<exists>err. results (moveOne E options m st) = results st @ [move_result m err] \<and>
         successful (moveOne E options m st) = successful st + (if err = None then 1 else 0) \<and>
         failed (moveOne E options m st) = failed st + (if err = None then 0 else 1)"
proof -
  define F where "F x \<longleftrightarrow> (\<exists>msg h. x = record_failure m msg h st)" for x
  define S where "S x \<longleftrightarrow> (\<exists>h db'. x =
            st\<lparr>trace := h, repos := db', results := results st @ [move_result m None],
               successful := successful st + 1\<rparr>)" for x
  have F: "\<And>msg h. F (record_failure m msg h st)" unfolding F_def by blast
  have S: "\<And>h db'. S (st\<lparr>trace := h, repos := db',
              results := results st @ [move_result m None],
              successful := Suc (successful st)\<rparr>)" unfolding S_def by auto
  have "F (moveOne E options m st) \<or> S (moveOne E options m st)"
    unfolding moveOne_def
    by (simp add: F S split: prod.split option.split sum.split error.split)
  then have "(\<exists>msg h. moveOne E options m st = record_failure m msg h st) \<or>
        (\<exists>h db'. moveOne E options m st =
            st\<lparr>trace := h, repos := db', results := results st @ [move_result m None],
               successful := successful st + 1\<rparr>)"
    unfolding F_def S_def .
  then show ?thesis
  proof
    assume "\<exists>msg h. moveOne E options m st = record_failure m msg h st"
    then obtain msg h where "moveOne E options m st = record_failure m msg h st" by blast
    then show ?thesis by (intro exI [of _ "Some msg"]) (simp add: record_failure_def)
  next
    assume "\<exists>h db'. moveOne E options m st =
            st\<lparr>trace := h, repos := db', results := results st @ [move_result m None],
               successful := successful st + 1\<rparr>"
    then obtain h db' where "moveOne E options m st =
            st\<lparr>trace := h, repos := db', results := results st @ [move_result m None],
               successful := successful st + 1\<rparr>" by blast
    then show ?thesis by (intro exI [of _ None]) simp
  qed
qed

lemma result_key_move_result [simp]: "result_key (move_result m err) = move_key m"
  by (simp add: result_key_def move_key_def move_result_def)

lemma success_move_result [simp]: "success (move_result m err) = (err = None)"
  by (simp add: move_result_def)

lemma fold_moveOne_results:
  "map result_key (results (fold (moveOne E options) ms st)) =
     map result_key (results st) @ map move_key ms \<and>
   (tally_ok st \<longrightarrow> tally_ok (fold (moveOne E options) ms st))"
proof (induction ms arbitrary: st)
  case Nil
  then show ?case by simp
next
  case (Cons m ms)
  obtain err where step: "results (moveOne E options m st) = results st @ [move_result m err]"
    "successful (moveOne E options m st) = successful st + (if err = None then 1 else 0)"
    "failed (moveOne E options m st) = failed st + (if err = None then 0 else 1)"
    using moveOne_step [of E options m st] by blast
  have "tally_ok st \<longrightarrow> tally_ok (moveOne E options m st)"
    using step by (simp add: tally_ok_def)
  then show ?case using Cons.IH [of "moveOne E options m st"] step(1) by simp
qed

lemma executeMoves_Success:
  assumes "validMoves moves \<noteq> []"
  shows "\<exists>summary msg. snd (executeMoves E options moves h db) = Success summary msg \<and>
     map result_key (sum_results summary) = map move_key (validMoves moves) \<and>
     sum_successful summary = length (filter success (sum_results summary)) \<and>
     sum_failed summary = length (filter (\<lambda>r. \<not> success r) (sum_results summary))"
proof -
  let ?init = "\<lparr>trace = h, repos = db, results = [], successful = 0, failed = 0\<rparr>"
  let ?st = "fold (moveOne E options) (validMoves moves) ?init"
  have "tally_ok ?init" by (simp add: tally_ok_def)
  with fold_moveOne_results [of E options "validMoves moves" ?init]
  have keys: "map result_key (results ?st) = map move_key (validMoves moves)"
    and tally: "tally_ok ?st" by simp_all
  from tally have t1: "successful ?st = length (filter success (results ?st))"
    and t2: "failed ?st = length (filter (\<lambda>r. \<not> success r) (results ?st))"
    unfolding tally_ok_def by blast+
  have "snd (executeMoves E options moves h db) =
      Success \<lparr>sum_successful = successful ?st, sum_failed = failed ?st,
               sum_results = results ?st\<rparr>
        (Some (''Moved '' @ string_of_nat (successful ?st) @ '' repositories'' @
           (if failed ?st > 0 then '', '' @ string_of_nat (failed ?st) @ '' failed'' else [])))"
    using assms by (simp add: executeMoves_def Let_def)
  then show ?thesis using keys t1 t2 by simp
qed

text \<open>
  C2. The entries with a conflict or an empty target are excluded from execution: the
  executor does on a batch what it does on the batch's valid entries alone. A batch
  without a valid entry ends in the overall failure and records no per-entry result.
  Otherwise the per-entry results are, in order, one result for each entry that has no
  conflict and a non-empty target, carrying that entry's id, name and paths, and nothing
  for the other entries; each result is a success or a failure, and the two counters
  count them.
\<close>

theorem executeMoves_one_result_per_valid_move:
  "executeMoves E options moves h db =
     executeMoves E options (filter (\<lambda>m. conflicts m = [] \<and> mv_to m \<noteq> []) moves) h db \<and>
   (case snd (executeMoves E options moves h db) of
      Failure msg \<Rightarrow> filter (\<lambda>m. conflicts m = [] \<and> mv_to m \<noteq> []) moves = []
    | Success summary msg \<Rightarrow>
        map result_key (sum_results summary) =
          map move_key (filter (\<lambda>m. conflicts m = [] \<and> mv_to m \<noteq> []) moves) \<and>
        sum_successful summary = length (filter success (sum_results summary)) \<and>
        sum_failed summary = length (filter (\<lambda>r. \<not> success r) (sum_results summary)))"
proof -
  have same: "executeMoves E options moves h db =
     executeMoves E options (filter (\<lambda>m. conflicts m = [] \<and> mv_to m \<noteq> []) moves) h db"
    by (simp add: executeMoves_def validMoves_def)
  have res: "(case snd (executeMoves E options moves h db) of
      Failure msg \<Rightarrow> filter (\<lambda>m. conflicts m = [] \<and> mv_to m \<noteq> []) moves = []
    | Success summary msg \<Rightarrow>
        map result_key (sum_results summary) =
          map move_key (filter (\<lambda>m. conflicts m = [] \<and> mv_to m \<noteq> []) moves) \<and>
        sum_successful summary = length (filter success (sum_results summary)) \<and>
        sum_failed summary = length (filter (\<lambda>r. \<not> success r) (sum_results summary)))"
  proof (cases "validMoves moves = []")
    case True
    then show ?thesis by (simp add: executeMoves_def validMoves_def)
  next
    case False
    from executeMoves_Success [OF False, where E = E and options = options and h = h and db = db]
    show ?thesis by (auto simp: validMoves_def)
  qed
  show ?thesis using same res by (rule conjI)
qed

theorem executeMoves_one_result_per_valid_move_witness:
  "map result_key
     (case snd (executeMoves example_env DEFAULT_MOVE_OPTIONS [blocked_move, example_move] []
                  [themed_repo]) of
        Failure msg \<Rightarrow> [] | Success summary msg \<Rightarrow> sum_results summary)
   = [move_key example_move]"
proof -
  have valid: "filter (\<lambda>m. conflicts m = [] \<and> mv_to m \<noteq> []) [blocked_move, example_move] =
      [example_move]" by code_simp
  have ok: "(case snd (executeMoves example_env DEFAULT_MOVE_OPTIONS
      [blocked_move, example_move] [] [themed_repo]) of
        Failure msg \<Rightarrow> False | Success summary msg \<Rightarrow> True)"
    by code_simp
  show ?thesis
    using executeMoves_one_result_per_valid_move [where E = example_env
        and options = DEFAULT_MOVE_OPTIONS and moves = "[blocked_move, example_move]"
        and h = "[]" and db = "[themed_repo]"] valid ok
    by (auto split: ActionResult.splits)
qed

text \<open>
  C8, as the code has it. A batch with at least one valid entry always ends in a
  success-shaped result whose per-entry results and counters cover every valid entry,
  whatever the entries' outcomes; the overall failure is returned exactly for a batch
  without a valid entry.
\<close>

theorem executeMoves_success_shaped:
  "(validMoves moves \<noteq> [] \<longrightarrow>
      (\<exists>summary msg. snd (executeMoves E options moves h db) = Success summary msg \<and>
         length (sum_results summary) = length (validMoves moves) \<and>
         sum_successful summary + sum_failed summary = length (validMoves moves))) \<and>
   (validMoves moves = [] \<longrightarrow>
      snd (executeMoves E options moves h db) =
        Failure ''No valid moves to execute. Resolve conflicts first.'')"
proof -
  have empty: "validMoves moves = [] \<longrightarrow>
      snd (executeMoves E options moves h db) =
        Failure ''No valid moves to execute. Resolve conflicts first.''"
    by (simp add: executeMoves_def)
  have nonempty: "validMoves moves \<noteq> [] \<longrightarrow>
      (\<exists>summary msg. snd (executeMoves E options moves h db) = Success summary msg \<and>
         length (sum_results summary) = length (validMoves moves) \<and>
         sum_successful summary + sum_failed summary = length (validMoves moves))"
  proof
    assume ne: "validMoves moves \<noteq> []"
    from executeMoves_Success [OF ne, where E = E and options = options and h = h and db = db]
    obtain summary msg where s: "snd (executeMoves E options moves h db) = Success summary msg"
      "map result_key (sum_results summary) = map move_key (validMoves moves)"
      "sum_successful summary = length (filter success (sum_results summary))"
      "sum_failed summary = length (filter (\<lambda>r. \<not> success r) (sum_results summary))"
      by blast
    from s(2) have len: "length (sum_results summary) = length (validMoves moves)"
      by (metis length_map)
    have "sum_successful summary + sum_failed summary = length (sum_results summary)"
      using s(3,4) sum_length_filter_compl [of success "sum_results summary"] by simp
    with s(1) len show "\<exists>summary msg. snd (executeMoves E options moves h db) = Success summary msg \<and>
         length (sum_results summary) = length (validMoves moves) \<and>
         sum_successful summary + sum_failed summary = length (validMoves moves)"
      by simp
  qed
  show ?thesis using empty nonempty by blast
qed

theorem executeMoves_success_shaped_witness:
  "validMoves [example_move] \<noteq> [] \<and>
   (case snd (executeMoves example_env DEFAULT_MOVE_OPTIONS [example_move] [] [themed_repo]) of
      Failure msg \<Rightarrow> False
    | Success summary msg \<Rightarrow> sum_successful summary + sum_failed summary = 1) \<and>
   validMoves [blocked_move] = [] \<and>
   snd (executeMoves example_env DEFAULT_MOVE_OPTIONS [blocked_move] [] [themed_repo]) =
     Failure ''No valid moves to execute. Resolve conflicts first.''"
proof -
  have v1: "validMoves [example_move] \<noteq> []" by code_simp
  have l1: "length (validMoves [example_move]) = 1" by code_simp
  have v2: "validMoves [blocked_move] = []" by code_simp
  show ?thesis
    using executeMoves_success_shaped [where moves = "[example_move]" and E = example_env
        and options = DEFAULT_MOVE_OPTIONS and h = "[]" and db = "[themed_repo]"]
      executeMoves_success_shaped [where moves = "[blocked_move]" and E = example_env
        and options = DEFAULT_MOVE_OPTIONS and h = "[]" and db = "[themed_repo]"] v1 l1 v2
    by auto
qed

text \<open>
  C8, as the specification states it, reports a batch in which every attempted entry
  failed as an overall failure. A batch of one valid entry whose source is missing ends in a
  success-shaped result with one failure.
\<close>

theorem executeMoves_all_failed_counterexample:
  "validMoves [example_move] = [example_move] \<and>
   snd (executeMoves no_source_env DEFAULT_MOVE_OPTIONS [example_move] [] [themed_repo]) =
     Success \<lparr>sum_successful = 0, sum_failed = 1,
              sum_results = [move_result example_move (Some ''Source directory not found'')]\<rparr>
       (Some ''Moved 0 repositories, 1 failed'')"
  by code_simp

subsection \<open>The relocation\<close>

lemma is_copy_effect_simps [simp]:
  "is_copy_effect (Mkdir p)" "is_copy_effect (Readdir p)" "is_copy_effect (Readlink p)"
  "is_copy_effect (Symlink t p)" "is_copy_effect (CopyFile a b)"
  "\<not> is_copy_effect (Rm p)" "\<not> is_copy_effect (Rename a b)"
  "\<not> is_copy_effect (Access p)" "\<not> is_copy_effect (DbUpdate i)"
  by (simp_all add: is_copy_effect_def)

lemma is_write_simps [simp]:
  "is_write (Mkdir p)" "\<not> is_write (Readdir p)" "\<not> is_write (Readlink p)"
  "is_write (Symlink t p)" "is_write (CopyFile a b)"
  "\<not> is_write (Rm p)" "\<not> is_write (Rename a b)"
  "\<not> is_write (Access p)" "\<not> is_write (DbUpdate i)"
  by (simp_all add: is_write_def)











section \<open>Properties of the move planner\<close>

lemma preview_repo_accounts:
  "preview_repo root repo existingPaths = Inr (existingPaths', entry) \<Longrightarrow> accounts_for repo entry"
  by (auto simp: preview_repo_def accounts_for_def Let_def truthy_def
           split: option.splits if_splits sum.splits)

lemma preview_loop_accounts:
  "preview_loop root rs existingPaths = Inr entries \<Longrightarrow> list_all2 accounts_for rs entries"
proof (induction rs arbitrary: existingPaths entries)
  case Nil
  then show ?case by simp
next
  case (Cons repo rest)
  from Cons.prems obtain ex' entry es where
    one: "preview_repo root repo existingPaths = Inr (ex', entry)"
    and more: "preview_loop root rest ex' = Inr es" and "entries = entry # es"
    by (auto split: sum.splits prod.splits)
  then show ?case using preview_repo_accounts [OF one] Cons.IH [OF more] by simp
qed

text \<open>
  C3, as the code has it. A preview that succeeds holds exactly one entry for each
  repository found in the store under a requested id, in the store's order; the entry of
  a repository without a theme has an empty target and the conflict "No theme assigned".
  A requested id that is not in the store gets no entry, and when an organization root is
  configured and no requested id is in the store the preview fails with the message
  "No repositories found"; without a configured root it fails too.
\<close>

theorem generateMovePreview_accounts_for_found:
  "(generateMovePreview settings db existing repoIds = Success previews msg \<longrightarrow>
      findMany_in db repoIds \<noteq> [] \<and>
      list_all2 accounts_for (findMany_in db repoIds) previews \<and>
      map mv_repoId previews = filter (\<lambda>i. i \<in> set repoIds) (map repo_id db)) \<and>
   (settings = Some s \<and> truthy (organizationRoot s) \<and> findMany_in db repoIds = [] \<longrightarrow>
      generateMovePreview settings db existing repoIds = Failure ''No repositories found'') \<and>
   (settings = Some s \<and> truthy (organizationRoot s) \<and>
    generateMovePreview settings db existing repoIds = Failure ''No repositories found'' \<longrightarrow>
      findMany_in db repoIds = [] \<or>
      (\<exists>root. preview_loop root (findMany_in db repoIds) existing =
                 Inl (Error ''No repositories found''))) \<and>
   (findMany_in db repoIds = [] \<longrightarrow>
      (\<exists>msg. generateMovePreview settings db existing repoIds = Failure msg))"
proof -
  have ok: "generateMovePreview settings db existing repoIds = Success previews msg \<longrightarrow>
      findMany_in db repoIds \<noteq> [] \<and>
      list_all2 accounts_for (findMany_in db repoIds) previews \<and>
      map mv_repoId previews = filter (\<lambda>i. i \<in> set repoIds) (map repo_id db)"
  proof
    assume s: "generateMovePreview settings db existing repoIds = Success previews msg"
    then obtain root where ne: "findMany_in db repoIds \<noteq> []"
      and loop: "preview_loop root (findMany_in db repoIds) existing = Inr previews"
      by (auto simp: generateMovePreview_def Let_def
               split: option.splits if_splits sum.splits error.splits)
    from preview_loop_accounts [OF loop]
    have acc: "list_all2 accounts_for (findMany_in db repoIds) previews" .
    then have "map mv_repoId previews = map repo_id (findMany_in db repoIds)"
      by (induction rule: list_all2_induct) (simp_all add: accounts_for_def)
    then have "map mv_repoId previews = filter (\<lambda>i. i \<in> set repoIds) (map repo_id db)"
      by (simp add: findMany_in_def filter_map comp_def)
    with ne acc show "findMany_in db repoIds \<noteq> [] \<and>
      list_all2 accounts_for (findMany_in db repoIds) previews \<and>
      map mv_repoId previews = filter (\<lambda>i. i \<in> set repoIds) (map repo_id db)" by simp
  qed
  have none: "findMany_in db repoIds = [] \<longrightarrow>
      (\<exists>msg. generateMovePreview settings db existing repoIds = Failure msg)"
    by (simp add: generateMovePreview_def Let_def split: option.splits)
  have exact: "settings = Some s \<and> truthy (organizationRoot s) \<and> findMany_in db repoIds = [] \<longrightarrow>
      generateMovePreview settings db existing repoIds = Failure ''No repositories found''"
    by (auto simp: generateMovePreview_def Let_def truthy_def split: option.splits)
  have only: "settings = Some s \<and> truthy (organizationRoot s) \<and>
    generateMovePreview settings db existing repoIds = Failure ''No repositories found'' \<longrightarrow>
      findMany_in db repoIds = [] \<or>
      (\<exists>root. preview_loop root (findMany_in db repoIds) existing =
                 Inl (Error ''No repositories found''))"
    by (auto simp: generateMovePreview_def Let_def truthy_def
             split: option.splits if_splits sum.splits error.splits)
  show ?thesis by (intro conjI) (rule ok exact only none)+
qed

theorem generateMovePreview_accounts_for_found_witness:
  "generateMovePreview (Some example_settings) [themed_repo, unthemed_repo]
       [''c:/org/python/app''] [2, 1, 7] =
     Success
       [\<lparr>mv_repoId = 1, mv_repoName = ''app'', mv_from = ''C:/src/app'',
         mv_to = ''C:/org/python/app-2'', mv_theme = ''python'', conflicts = [],
         warnings = [''Path conflict: will use app-2'']\<rparr>,
        \<lparr>mv_repoId = 2, mv_repoName = ''lib'', mv_from = ''C:/src/lib'', mv_to = [],
         mv_theme = [], conflicts = [''No theme assigned''], warnings = []\<rparr>] None \<and>
   map mv_repoId
     (case generateMovePreview (Some example_settings) [themed_repo, unthemed_repo]
             [''c:/org/python/app''] [2, 1, 7] of
        Failure msg \<Rightarrow> [] | Success previews msg \<Rightarrow> previews) = [1, 2] \<and>
   findMany_in [themed_repo, unthemed_repo] [7] = [] \<and>
   generateMovePreview (Some example_settings) [themed_repo, unthemed_repo]
       [''c:/org/python/app''] [7] = Failure ''No repositories found''"
proof -
  have run: "generateMovePreview (Some example_settings) [themed_repo, unthemed_repo]
       [''c:/org/python/app''] [2, 1, 7] =
     Success
       [\<lparr>mv_repoId = 1, mv_repoName = ''app'', mv_from = ''C:/src/app'',
         mv_to = ''C:/org/python/app-2'', mv_theme = ''python'', conflicts = [],
         warnings = [''Path conflict: will use app-2'']\<rparr>,
        \<lparr>mv_repoId = 2, mv_repoName = ''lib'', mv_from = ''C:/src/lib'', mv_to = [],
         mv_theme = [], conflicts = [''No theme assigned''], warnings = []\<rparr>] None"
    by code_simp
  have ids: "filter (\<lambda>i. i \<in> set [2, 1, 7]) (map repo_id [themed_repo, unthemed_repo]) = [1, 2]"
    by code_simp
  have first: "map mv_repoId
     (case generateMovePreview (Some example_settings) [themed_repo, unthemed_repo]
             [''c:/org/python/app''] [2, 1, 7] of
        Failure msg \<Rightarrow> [] | Success previews msg \<Rightarrow> previews) = [1, 2]"
    using generateMovePreview_accounts_for_found [where settings = "Some example_settings"
        and db = "[themed_repo, unthemed_repo]" and existing = "[''c:/org/python/app'']"
        and repoIds = "[2, 1, 7]" and s = example_settings, THEN conjunct1, rule_format, OF run]
      run ids
    by simp
  have root: "truthy (organizationRoot example_settings)" by code_simp
  have missing: "findMany_in [themed_repo, unthemed_repo] [7] = []" by code_simp
  have second: "generateMovePreview (Some example_settings) [themed_repo, unthemed_repo]
       [''c:/org/python/app''] [7] = Failure ''No repositories found''"
    by (rule generateMovePreview_accounts_for_found [where settings = "Some example_settings"
        and db = "[themed_repo, unthemed_repo]" and existing = "[''c:/org/python/app'']"
        and repoIds = "[7]" and s = example_settings and previews = "[]" and msg = None,
        THEN conjunct2, THEN conjunct1, rule_format])
       (intro conjI refl root missing)
  show ?thesis by (intro conjI) (rule run first missing second)+
qed

text \<open>
  C3, as the specification states it, gives every requested id an entry. For the ids 1
  and 2 with only 1 in the store the preview has the single entry of 1, and for the id 2 alone it
  fails.
\<close>

theorem generateMovePreview_omits_missing_id_counterexample:
  "generateMovePreview (Some example_settings) [themed_repo] [] [1, 2] =
     Success
       [\<lparr>mv_repoId = 1, mv_repoName = ''app'', mv_from = ''C:/src/app'',
         mv_to = ''C:/org/python/app'', mv_theme = ''python'', conflicts = [],
         warnings = []\<rparr>] None \<and>
   generateMovePreview (Some example_settings) [themed_repo] [] [2] =
     Failure ''No repositories found''"
  by code_simp

section \<open>The discovery walker on a nested repository\<close>

text \<open>
  C9. The walker ends a directory's loop at \<open>.git\<close>, but the entries listed before
  \<open>.git\<close> are already on the queue. With \<open>sub\<close> listed before \<open>.git\<close>, the walker yields
  the repository \<open>/r\<close> and then descends into it and yields \<open>/r/sub\<close>.
\<close>

theorem findGitRepos_descends_into_repository:
  "findGitRepos ''/r'' 5 nested_tree = [''/r'', ''/r/sub'']"
  by code_simp

end
